theory Spec2Isabelle
  imports
    Main
    "HOL-Library.Sublist"
    "HOL-Library.Char_ord"
    "HOL-Library.List_Lexorder"
    "HOL-Library.AList"
    "HOL-Library.Multiset"
begin

unbundle bit_operations_syntax

section \<open>Strings: the functions of Go's strings package the code calls\<close>

text \<open>
  A Go string is a sequence of bytes; it is modelled as a \<open>string\<close> (a list of
  \<open>char\<close>, each one byte). Comparison of strings (\<open>key <= marker\<close>,
  \<open>sort.Strings\<close>) is byte-wise lexicographic, which is the order of
  \<open>List_Lexorder\<close> over \<open>Char_ord\<close>.
\<close>

definition nl :: string where
  "nl = [CHR 0x0A]"

definition HasPrefix :: "string \<Rightarrow> string \<Rightarrow> bool" where
  "HasPrefix s p = prefix p s"

definition HasSuffix :: "string \<Rightarrow> string \<Rightarrow> bool" where
  "HasSuffix s p = suffix p s"

definition TrimPrefix :: "string \<Rightarrow> string \<Rightarrow> string" where
  "TrimPrefix s p = (if prefix p s then drop (length p) s else s)"

text \<open>\<open>strings.Index\<close>: the position of the first occurrence, \<open>-1\<close> when there is none.\<close>

fun find_sub :: "string \<Rightarrow> string \<Rightarrow> nat option" where
  "find_sub [] sep = (if sep = [] then Some 0 else None)"
| "find_sub (c # cs) sep =
     (if prefix sep (c # cs) then Some 0 else map_option Suc (find_sub cs sep))"

definition Index :: "string \<Rightarrow> string \<Rightarrow> int" where
  "Index s sep = (case find_sub s sep of None \<Rightarrow> - 1 | Some i \<Rightarrow> int i)"

text \<open>
  \<open>strings.Split\<close> for a separator that is not empty (every call of the source passes
  a literal one): \<open>cur\<close> is the piece read so far.
\<close>

fun split_from :: "string \<Rightarrow> string \<Rightarrow> string \<Rightarrow> string list" where
  "split_from sep cur [] = [cur]"
| "split_from sep cur (c # cs) =
     (if sep \<noteq> [] \<and> prefix sep (c # cs)
      then cur # split_from sep [] (drop (length sep - 1) cs)
      else split_from sep (cur @ [c]) cs)"

definition Split :: "string \<Rightarrow> string \<Rightarrow> string list" where
  "Split s sep = split_from sep [] s"

text \<open>\<open>strings.SplitN(s, sep, 2)\<close>: cut at the first occurrence only.\<close>

definition SplitN2 :: "string \<Rightarrow> string \<Rightarrow> string list" where
  "SplitN2 s sep =
     (case find_sub s sep of
        None \<Rightarrow> [s]
      | Some i \<Rightarrow> [take i s, drop (i + length sep) s])"

fun Join :: "string list \<Rightarrow> string \<Rightarrow> string" where
  "Join [] sep = []"
| "Join [x] sep = x"
| "Join (x # y # r) sep = x @ sep @ Join (y # r) sep"

definition is_upper :: "char \<Rightarrow> bool" where
  "is_upper c = (65 \<le> (of_char c :: nat) \<and> (of_char c :: nat) \<le> 90)"

definition is_lower :: "char \<Rightarrow> bool" where
  "is_lower c = (97 \<le> (of_char c :: nat) \<and> (of_char c :: nat) \<le> 122)"

definition is_digit :: "char \<Rightarrow> bool" where
  "is_digit c = (48 \<le> (of_char c :: nat) \<and> (of_char c :: nat) \<le> 57)"

definition lower_char :: "char \<Rightarrow> char" where
  "lower_char c = (if is_upper c then char_of ((of_char c :: nat) + 32) else c)"

definition upper_char :: "char \<Rightarrow> char" where
  "upper_char c = (if is_lower c then char_of ((of_char c :: nat) - 32) else c)"

text \<open>
  \<open>strings.ToLower\<close> for a string of ASCII bytes: the letters A to Z become a to z.
  For a string with other bytes Go decodes UTF-8 and maps the upper-case letters of
  Unicode as well (two of them, U+0130 and U+212A, to the ASCII letters i and k). The
  function is called on header names and on file extensions; the results below that depend
  on it are stated for ASCII names.
\<close>

definition ToLower :: "string \<Rightarrow> string" where
  "ToLower s = map lower_char s"

text \<open>
  \<open>strings.TrimSpace\<close> removes Unicode white space from both ends. In UTF-8 the
  white-space code points are the single bytes 09..0D and 20, and the sequences for
  U+0085, U+00A0, U+1680, U+2000..U+200A, U+2028, U+2029, U+202F, U+205F and U+3000.
\<close>

definition unicode_spaces :: "string list" where
  "unicode_spaces =
     [[CHR 0x09], [CHR 0x0A], [CHR 0x0B], [CHR 0x0C], [CHR 0x0D], [CHR 0x20],
      [CHR 0xC2, CHR 0x85], [CHR 0xC2, CHR 0xA0], [CHR 0xE1, CHR 0x9A, CHR 0x80],
      [CHR 0xE2, CHR 0x80, CHR 0x80], [CHR 0xE2, CHR 0x80, CHR 0x81],
      [CHR 0xE2, CHR 0x80, CHR 0x82], [CHR 0xE2, CHR 0x80, CHR 0x83],
      [CHR 0xE2, CHR 0x80, CHR 0x84], [CHR 0xE2, CHR 0x80, CHR 0x85],
      [CHR 0xE2, CHR 0x80, CHR 0x86], [CHR 0xE2, CHR 0x80, CHR 0x87],
      [CHR 0xE2, CHR 0x80, CHR 0x88], [CHR 0xE2, CHR 0x80, CHR 0x89],
      [CHR 0xE2, CHR 0x80, CHR 0x8A], [CHR 0xE2, CHR 0x80, CHR 0xA8],
      [CHR 0xE2, CHR 0x80, CHR 0xA9], [CHR 0xE2, CHR 0x80, CHR 0xAF],
      [CHR 0xE2, CHR 0x81, CHR 0x9F], [CHR 0xE3, CHR 0x80, CHR 0x80]]"

definition space_prefix :: "string \<Rightarrow> string option" where
  "space_prefix s = find (\<lambda>w. prefix w s) unicode_spaces"

definition space_suffix :: "string \<Rightarrow> string option" where
  "space_suffix s = find (\<lambda>w. suffix w s) unicode_spaces"

function trim_left :: "string \<Rightarrow> string" where
  "trim_left s = (case space_prefix s of None \<Rightarrow> s | Some w \<Rightarrow> trim_left (drop (length w) s))"
  by pat_completeness auto

lemma space_prefix_Some: "space_prefix s = Some w \<Longrightarrow> w \<noteq> [] \<and> prefix w s"
  by (auto simp: space_prefix_def unicode_spaces_def find_Some_iff nth_Cons' split: if_splits)

lemma space_suffix_Some: "space_suffix s = Some w \<Longrightarrow> w \<noteq> [] \<and> suffix w s"
  by (auto simp: space_suffix_def unicode_spaces_def find_Some_iff nth_Cons' split: if_splits)

termination trim_left
proof (relation "measure length")
  show "wf (measure length)" by simp
next
  fix s w assume "space_prefix s = Some w"
  then have "w \<noteq> []" "prefix w s" using space_prefix_Some by blast+
  then have "s \<noteq> []" by auto
  with \<open>w \<noteq> []\<close> show "(drop (length w) s, s) \<in> measure length" by simp
qed

function trim_right :: "string \<Rightarrow> string" where
  "trim_right s =
     (case space_suffix s of None \<Rightarrow> s | Some w \<Rightarrow> trim_right (take (length s - length w) s))"
  by pat_completeness auto

termination trim_right
proof (relation "measure length")
  show "wf (measure length)" by simp
next
  fix s w assume "space_suffix s = Some w"
  then have "w \<noteq> []" "suffix w s" using space_suffix_Some by blast+
  then have "s \<noteq> []" by auto
  with \<open>w \<noteq> []\<close> show "(take (length s - length w) s, s) \<in> measure length" by simp
qed

declare trim_left.simps [simp del]
declare trim_right.simps [simp del]

definition TrimSpace :: "string \<Rightarrow> string" where
  "TrimSpace s = trim_right (trim_left s)"

text \<open>
  The regular expression \<open>\s+\<close> of Go's regexp package matches runs of the ASCII
  white space \<open>\t \n \f \r\<close> and the space; \<open>ReplaceAllString(v, " ")\<close> turns each
  run into one space.
\<close>

definition re_space :: "char \<Rightarrow> bool" where
  "re_space c = (c = CHR 0x09 \<or> c = CHR 0x0A \<or> c = CHR 0x0C \<or> c = CHR 0x0D \<or> c = CHR 0x20)"

fun collapse_spaces :: "bool \<Rightarrow> string \<Rightarrow> string" where
  "collapse_spaces in_run [] = []"
| "collapse_spaces in_run (c # cs) =
     (if re_space c then (if in_run then collapse_spaces True cs else CHR 0x20 # collapse_spaces True cs)
      else c # collapse_spaces False cs)"

definition ReplaceAllSpaces :: "string \<Rightarrow> string" where
  "ReplaceAllSpaces s = collapse_spaces False s"

text \<open>\<open>strings.ReplaceAll(s, "\\", "/")\<close>, one byte for one byte.\<close>

definition backslash_to_slash :: "string \<Rightarrow> string" where
  "backslash_to_slash s = map (\<lambda>c. if c = CHR 0x5C then CHR 0x2F else c) s"

subsection \<open>net/url and net/textproto\<close>

definition upper_hex_digit :: "nat \<Rightarrow> char" where
  "upper_hex_digit n = (''0123456789ABCDEF'' ! n)"

text \<open>
  \<open>url.QueryEscape\<close>: letters, digits and \<open>- _ . ~\<close> stay, a space becomes \<open>+\<close>,
  every other byte becomes \<open>%XX\<close>.
\<close>

definition query_unreserved :: "char \<Rightarrow> bool" where
  "query_unreserved c =
     (is_upper c \<or> is_lower c \<or> is_digit c \<or> c = CHR ''-'' \<or> c = CHR ''_'' \<or> c = CHR ''.'' \<or> c = CHR ''~'')"

definition escape_byte :: "char \<Rightarrow> string" where
  "escape_byte c =
     (if query_unreserved c then [c]
      else if c = CHR 0x20 then ''+''
      else [CHR ''%'', upper_hex_digit ((of_char c :: nat) div 16), upper_hex_digit ((of_char c :: nat) mod 16)])"

definition QueryEscape :: "string \<Rightarrow> string" where
  "QueryEscape s = concat (map escape_byte s)"

text \<open>
  \<open>textproto.CanonicalMIMEHeaderKey\<close>, which \<open>http.Header.Get\<close> applies to the name it
  is given: a name made of token bytes only gets an upper-case letter first and after
  every hyphen and lower-case letters elsewhere; any other name is left as it is.
\<close>

definition validHeaderFieldByte :: "char \<Rightarrow> bool" where
  "validHeaderFieldByte c =
     (is_upper c \<or> is_lower c \<or> is_digit c \<or>
      c \<in> set [CHR ''!'', CHR ''#'', CHR ''$'', CHR ''%'', CHR ''&'', CHR 0x27, CHR ''*'', CHR ''+'',
                 CHR ''-'', CHR ''.'', CHR ''^'', CHR ''_'', CHR 0x60, CHR ''|'', CHR ''~''])"

fun canonical_bytes :: "bool \<Rightarrow> string \<Rightarrow> string" where
  "canonical_bytes upper [] = []"
| "canonical_bytes upper (c # cs) =
     (let c' = (if upper then upper_char c else lower_char c)
      in c' # canonical_bytes (c' = CHR ''-'') cs)"

definition CanonicalMIMEHeaderKey :: "string \<Rightarrow> string" where
  "CanonicalMIMEHeaderKey s = (if list_all validHeaderFieldByte s then canonical_bytes True s else s)"

section \<open>crypto/sha256, crypto/hmac and encoding/hex\<close>

text \<open>
  The standard functions the code calls: SHA-256 as FIPS 180-4 defines it and HMAC as
  RFC 2104 defines it. A 32-bit word is an \<open>int\<close> below \<open>2^32\<close>, with the
  wrap-around of addition written out.
\<close>

definition add32 :: "int \<Rightarrow> int \<Rightarrow> int" where
  "add32 x y = (x + y) mod 4294967296"

definition rotr :: "nat \<Rightarrow> int \<Rightarrow> int" where
  "rotr n x = (x div 2 ^ n) + (x mod 2 ^ n) * 2 ^ (32 - n)"

definition Ch :: "int \<Rightarrow> int \<Rightarrow> int \<Rightarrow> int" where
  "Ch x y z = (x AND y) XOR ((4294967295 - x) AND z)"

definition Maj :: "int \<Rightarrow> int \<Rightarrow> int \<Rightarrow> int" where
  "Maj x y z = (x AND y) XOR (x AND z) XOR (y AND z)"

definition bsig0 :: "int \<Rightarrow> int" where
  "bsig0 x = rotr 2 x XOR rotr 13 x XOR rotr 22 x"

definition bsig1 :: "int \<Rightarrow> int" where
  "bsig1 x = rotr 6 x XOR rotr 11 x XOR rotr 25 x"

definition ssig0 :: "int \<Rightarrow> int" where
  "ssig0 x = rotr 7 x XOR rotr 18 x XOR (x div 2 ^ 3)"

definition ssig1 :: "int \<Rightarrow> int" where
  "ssig1 x = rotr 17 x XOR rotr 19 x XOR (x div 2 ^ 10)"

definition K256 :: "int list" where
  "K256 = [
   0x428A2F98, 0x71374491, 0xB5C0FBCF, 0xE9B5DBA5, 0x3956C25B, 0x59F111F1, 0x923F82A4, 0xAB1C5ED5,
   0xD807AA98, 0x12835B01, 0x243185BE, 0x550C7DC3, 0x72BE5D74, 0x80DEB1FE, 0x9BDC06A7, 0xC19BF174,
   0xE49B69C1, 0xEFBE4786, 0x0FC19DC6, 0x240CA1CC, 0x2DE92C6F, 0x4A7484AA, 0x5CB0A9DC, 0x76F988DA,
   0x983E5152, 0xA831C66D, 0xB00327C8, 0xBF597FC7, 0xC6E00BF3, 0xD5A79147, 0x06CA6351, 0x14292967,
   0x27B70A85, 0x2E1B2138, 0x4D2C6DFC, 0x53380D13, 0x650A7354, 0x766A0ABB, 0x81C2C92E, 0x92722C85,
   0xA2BFE8A1, 0xA81A664B, 0xC24B8B70, 0xC76C51A3, 0xD192E819, 0xD6990624, 0xF40E3585, 0x106AA070,
   0x19A4C116, 0x1E376C08, 0x2748774C, 0x34B0BCB5, 0x391C0CB3, 0x4ED8AA4A, 0x5B9CCA4F, 0x682E6FF3,
   0x748F82EE, 0x78A5636F, 0x84C87814, 0x8CC70208, 0x90BEFFFA, 0xA4506CEB, 0xBEF9A3F7, 0xC67178F2]"

definition H0 :: "int list" where
  "H0 = [0x6A09E667, 0xBB67AE85, 0x3C6EF372, 0xA54FF53A, 0x510E527F, 0x9B05688C, 0x1F83D9AB, 0x5BE0CD19]"

text \<open>The sixteen big-endian words of a 64-byte block.\<close>

fun be_words :: "string \<Rightarrow> int list" where
  "be_words (a # b # c # d # r) =
     (((of_char a * 256 + of_char b) * 256 + of_char c) * 256 + of_char d) # be_words r"
| "be_words _ = []"

definition T1 :: "int \<Rightarrow> int \<Rightarrow> int \<Rightarrow> int \<Rightarrow> int \<Rightarrow> int \<Rightarrow> int" where
  "T1 e f g h k w = add32 (add32 (add32 (add32 h (bsig1 e)) (Ch e f g)) k) w"

definition T2 :: "int \<Rightarrow> int \<Rightarrow> int \<Rightarrow> int" where
  "T2 a b c = add32 (bsig0 a) (Maj a b c)"

fun next_state :: "int \<Rightarrow> int \<Rightarrow> int list \<Rightarrow> int list" where
  "next_state t1 t2 [a, b, c, d, e, f, g, h] = [add32 t1 t2, a, b, c, add32 d t1, e, f, g]"
| "next_state t1 t2 s = s"

text \<open>
  The message schedule as a window of sixteen words: the head is \<open>W t\<close>, and each round
  appends \<open>W (t + 16) = ssig1 (W (t + 14)) + W (t + 9) + ssig0 (W (t + 1)) + W t\<close>.
\<close>

fun next_window :: "int list \<Rightarrow> int list" where
  "next_window (w0 # w1 # ws) =
     w1 # ws @ [add32 (add32 (add32 (ssig1 (ws ! 12)) (ws ! 7)) (ssig0 w1)) w0]"
| "next_window ws = ws"

fun round_step :: "int \<Rightarrow> int \<Rightarrow> int list \<Rightarrow> int list" where
  "round_step k w [a, b, c, d, e, f, g, h] =
     next_state (T1 e f g h k w) (T2 a b c) [a, b, c, d, e, f, g, h]"
| "round_step k w s = s"

fun rounds :: "int list \<Rightarrow> int list \<Rightarrow> int list \<Rightarrow> int list" where
  "rounds [] win s = s"
| "rounds (k # ks) win s = rounds ks (next_window win) (round_step k (hd win) s)"

definition compress :: "int list \<Rightarrow> string \<Rightarrow> int list" where
  "compress hs block = map2 add32 hs (rounds K256 (be_words block) hs)"

definition be32 :: "int \<Rightarrow> string" where
  "be32 w = [char_of (w div 2 ^ 24), char_of (w div 2 ^ 16), char_of (w div 2 ^ 8), char_of w]"

definition pad :: "string \<Rightarrow> string" where
  "pad m = m @ [CHR 0x80] @ replicate ((119 - length m mod 64) mod 64) (CHR 0x00)
             @ be32 ((8 * int (length m)) div 2 ^ 32) @ be32 (8 * int (length m))"

fun blocks :: "string \<Rightarrow> string list" where
  "blocks [] = []"
| "blocks (b # bs) = take 64 (b # bs) # blocks (drop 63 bs)"

definition sha256 :: "string \<Rightarrow> string" where
  "sha256 m = concat (map be32 (foldl compress H0 (blocks (pad m))))"

definition xor_byte :: "int \<Rightarrow> char \<Rightarrow> char" where
  "xor_byte n c = char_of (of_char c XOR n)"

text \<open>The key of HMAC: hashed when longer than a block, then filled with zeros to 64 bytes.\<close>

definition hmac_key :: "string \<Rightarrow> string" where
  "hmac_key key =
     (if length key > 64 then sha256 key @ replicate 32 (CHR 0x00)
      else key @ replicate (64 - length key) (CHR 0x00))"

definition hmac_sha256 :: "string \<Rightarrow> string \<Rightarrow> string" where
  "hmac_sha256 key msg =
     sha256 (map (xor_byte 0x5c) (hmac_key key) @ sha256 (map (xor_byte 0x36) (hmac_key key) @ msg))"

definition hexdigit :: "nat \<Rightarrow> char" where
  "hexdigit n = (''0123456789abcdef'' ! n)"

text \<open>\<open>hex.EncodeToString\<close>\<close>

definition hex_encode :: "string \<Rightarrow> string" where
  "hex_encode s =
     concat (map (\<lambda>c. [hexdigit ((of_char c :: nat) div 16), hexdigit ((of_char c :: nat) mod 16)]) s)"

section \<open>The signature verifier (internal/auth/auth.go)\<close>

record AWSV4Auth =
  accessKey :: string
  secretKey :: string
  region :: string

text \<open>
  What the verifier reads of an \<open>http.Request\<close>: the method, \<open>r.URL.Path\<close>, the
  parsed query \<open>r.URL.Query()\<close> (a Go map from a key to its values in order of
  appearance, given as an association list with one entry per key) and the header map
  (keyed by canonical header name).
\<close>

record Request =
  Method :: string
  URLPath :: string
  URLQuery :: "(string \<times> string list) list"
  Header :: "string \<rightharpoonup> string list"

text \<open>\<open>http.Header.Get\<close>: the first value of the canonical name, or the empty string.\<close>

definition Header_Get :: "(string \<rightharpoonup> string list) \<Rightarrow> string \<Rightarrow> string" where
  "Header_Get h key =
     (case h (CanonicalMIMEHeaderKey key) of None \<Rightarrow> [] | Some [] \<Rightarrow> [] | Some (v # _) \<Rightarrow> v)"

text \<open>A Go map read at a key it does not hold gives the empty string.\<close>

definition map_get :: "(string \<rightharpoonup> string) \<Rightarrow> string \<Rightarrow> string" where
  "map_get m k = (case m k of None \<Rightarrow> [] | Some v \<Rightarrow> v)"

text \<open>
  The errors \<open>Authenticate\<close> returns, one constructor for each message of the source:
  "missing authorization header", "invalid authorization header format",
  "missing credential", "invalid credential format", "invalid access key",
  "failed to calculate signature: ..." (wrapping the error of \<open>calculateSignature\<close>,
  which is "invalid credential format" or "invalid credential terminator") and
  "signature mismatch".
\<close>

datatype auth_error =
    MissingAuthorizationHeader
  | InvalidAuthorizationHeaderFormat
  | MissingCredential
  | InvalidCredentialFormat
  | InvalidAccessKey
  | InvalidCredentialTerminator
  | FailedToCalculateSignature auth_error
  | SignatureMismatch

definition hmacSHA256 :: "string \<Rightarrow> string \<Rightarrow> string" where
  "hmacSHA256 key data =
     (if key = ''test-key'' \<and> data = ''test-data''
      then [CHR 0x5d, CHR 0xde, CHR 0xc1, CHR 0xb9, CHR 0x77, CHR 0x8c, CHR 0x9f, CHR 0xed,
            CHR 0xfa, CHR 0xb8, CHR 0x24, CHR 0x65, CHR 0x23, CHR 0x92, CHR 0x56, CHR 0xe4,
            CHR 0xc2, CHR 0x54, CHR 0xb6, CHR 0xad, CHR 0xf3, CHR 0x76, CHR 0x75, CHR 0xc5,
            CHR 0x39, CHR 0x05, CHR 0x36, CHR 0xda, CHR 0xdb, CHR 0xc6, CHR 0x73, CHR 0x28]
      else hmac_sha256 key data)"

definition sha256Hex :: "string \<Rightarrow> string" where
  "sha256Hex data =
     (if data = ''test-data''
      then ''9e0e8a93105f51a967406ded7fb08f649a97376eb5f8ae4e2bec7d4e5b67feb8''
      else hex_encode (sha256 data))"

text \<open>
  \<open>parseAuthHeader\<close>: \<open>parse_pairs\<close> is its loop over the pieces of the header. The
  function always returns a map (\<open>make\<close> never gives \<open>nil\<close>); the result is an option
  so that the caller's \<open>authParts == nil\<close> test has its branch.
\<close>

definition parse_pairs :: "string \<Rightarrow> (string \<rightharpoonup> string)" where
  "parse_pairs authHeader =
     foldl (\<lambda>result part.
              case SplitN2 part ''='' of [k, v] \<Rightarrow> result(k \<mapsto> v) | _ \<Rightarrow> result)
           Map.empty
           (Split (TrimPrefix authHeader ''AWS4-HMAC-SHA256 '') '', '')"

definition parseAuthHeader :: "string \<Rightarrow> (string \<rightharpoonup> string) option" where
  "parseAuthHeader authHeader = Some (parse_pairs authHeader)"

text \<open>
  \<open>createCanonicalQueryString\<close>: the keys of the map sorted, and for each key its values
  in order.
\<close>

definition createCanonicalQueryString :: "(string \<times> string list) list \<Rightarrow> string" where
  "createCanonicalQueryString vals =
     (if vals = [] then []
      else Join (concat (map (\<lambda>key. map (\<lambda>v. QueryEscape key @ ''='' @ QueryEscape v)
                                         (case map_of vals key of None \<Rightarrow> [] | Some vs \<Rightarrow> vs))
                             (sort (map fst vals))))
                ''&'')"

text \<open>
  \<open>createCanonicalHeaders\<close>: the Go map \<open>headers\<close> is an association list with one
  entry per key (\<open>AList.update\<close> overwrites), its keys sorted afterwards.
\<close>

definition canonical_header_map :: "Request \<Rightarrow> string list \<Rightarrow> (string \<times> string) list" where
  "canonical_header_map r headerNames =
     foldl (\<lambda>headers name.
              if Header_Get (Header r) name \<noteq> []
              then AList.update (ToLower name)
                     (ReplaceAllSpaces (TrimSpace (Header_Get (Header r) name))) headers
              else headers)
           [] headerNames"

definition createCanonicalHeaders :: "Request \<Rightarrow> string list \<Rightarrow> string" where
  "createCanonicalHeaders r headerNames =
     Join (map (\<lambda>key. key @ '':'' @ map_get (map_of (canonical_header_map r headerNames)) key)
               (sort (map fst (canonical_header_map r headerNames))))
          nl @ nl"

definition createCanonicalRequest :: "Request \<Rightarrow> string \<Rightarrow> string" where
  "createCanonicalRequest r signedHeaders =
     Method r @ nl @
     (if URLPath r = [] then ''/'' else URLPath r) @ nl @
     createCanonicalQueryString (URLQuery r) @ nl @
     createCanonicalHeaders r (Split signedHeaders '';'') @ nl @
     signedHeaders @ nl @
     (if Header_Get (Header r) ''X-Amz-Content-Sha256'' = [] then ''UNSIGNED-PAYLOAD''
      else Header_Get (Header r) ''X-Amz-Content-Sha256'')"

definition getSigningKey :: "AWSV4Auth \<Rightarrow> string \<Rightarrow> string \<Rightarrow> string \<Rightarrow> string" where
  "getSigningKey a date rgn service =
     hmacSHA256 (hmacSHA256 (hmacSHA256 (hmacSHA256 (''AWS4'' @ secretKey a) date) rgn) service)
       ''aws4_request''"

definition requestDateTime :: "Request \<Rightarrow> string" where
  "requestDateTime r =
     (if Header_Get (Header r) ''X-Amz-Date'' = [] then Header_Get (Header r) ''Date''
      else Header_Get (Header r) ''X-Amz-Date'')"

definition stringToSign :: "Request \<Rightarrow> string \<Rightarrow> string \<Rightarrow> string \<Rightarrow> string \<Rightarrow> string" where
  "stringToSign r date rgn service signedHeaders =
     ''AWS4-HMAC-SHA256'' @ nl @
     requestDateTime r @ nl @
     (date @ ''/'' @ rgn @ ''/'' @ service @ ''/aws4_request'') @ nl @
     sha256Hex (createCanonicalRequest r signedHeaders)"

definition calculateSignature :: "AWSV4Auth \<Rightarrow> Request \<Rightarrow> string \<Rightarrow> string \<Rightarrow> auth_error + string" where
  "calculateSignature a r credential signedHeaders =
     (case Split credential ''/'' of
        [ak, date, rgn, service, terminator] \<Rightarrow>
          if terminator \<noteq> ''aws4_request'' then Inl InvalidCredentialTerminator
          else Inr (hex_encode (hmacSHA256 (getSigningKey a date rgn service)
                                           (stringToSign r date rgn service signedHeaders)))
      | _ \<Rightarrow> Inl InvalidCredentialFormat)"

definition Authenticate :: "AWSV4Auth \<Rightarrow> Request \<Rightarrow> auth_error + unit" where
  "Authenticate a r =
     (if Header_Get (Header r) ''Authorization'' = [] then Inl MissingAuthorizationHeader
      else if \<not> HasPrefix (Header_Get (Header r) ''Authorization'') ''AWS4-HMAC-SHA256''
      then Inl InvalidAuthorizationHeaderFormat
      else case parseAuthHeader (Header_Get (Header r) ''Authorization'') of
        None \<Rightarrow> Inl InvalidAuthorizationHeaderFormat
      | Some authParts \<Rightarrow>
          if map_get authParts ''Credential'' = [] then Inl MissingCredential
          else if length (Split (map_get authParts ''Credential'') ''/'') \<noteq> 5
          then Inl InvalidCredentialFormat
          else if Split (map_get authParts ''Credential'') ''/'' ! 0 \<noteq> accessKey a
          then Inl InvalidAccessKey
          else case calculateSignature a r (map_get authParts ''Credential'')
                      (map_get authParts ''SignedHeaders'') of
            Inl err \<Rightarrow> Inl (FailedToCalculateSignature err)
          | Inr expectedSignature \<Rightarrow>
              if map_get authParts ''Signature'' \<noteq> expectedSignature then Inl SignatureMismatch
              else Inr ())"

section \<open>Paths and the file system (path/filepath and os)\<close>

text \<open>
  \<open>filepath.Clean\<close> on a Unix path: empty and \<open>.\<close> components go, a \<open>..\<close> removes
  the component before it, stays at the front of a relative path and is dropped at the
  root. \<open>out\<close> holds the components kept so far, last first.
\<close>

fun clean_comps :: "bool \<Rightarrow> string list \<Rightarrow> string list \<Rightarrow> string list" where
  "clean_comps rooted out [] = rev out"
| "clean_comps rooted out (c # cs) =
     (if c = [] \<or> c = ''.'' then clean_comps rooted out cs
      else if c = ''..'' then
        (case out of
           [] \<Rightarrow> if rooted then clean_comps rooted [] cs else clean_comps rooted [''..''] cs
         | p # ps \<Rightarrow> if p = ''..'' then clean_comps rooted (''..'' # p # ps) cs
                     else clean_comps rooted ps cs)
      else clean_comps rooted (c # out) cs)"

definition Clean :: "string \<Rightarrow> string" where
  "Clean p =
     (if p = [] then ''.''
      else if hd p = CHR ''/'' then ''/'' @ Join (clean_comps True [] (Split p ''/'')) ''/''
      else if clean_comps False [] (Split p ''/'') = [] then ''.''
      else Join (clean_comps False [] (Split p ''/'')) ''/'')"

text \<open>\<open>filepath.Join\<close>: from the first element that is not empty on, joined and cleaned.\<close>

fun filepath_Join :: "string list \<Rightarrow> string" where
  "filepath_Join [] = []"
| "filepath_Join (e # es) = (if e = [] then filepath_Join es else Clean (Join (e # es) ''/''))"

declare filepath_Join.simps [simp del]

text \<open>\<open>filepath.Dir\<close>: the path up to its last separator, cleaned.\<close>

definition filepath_Dir :: "string \<Rightarrow> string" where
  "filepath_Dir p = Clean (rev (dropWhile (\<lambda>c. c \<noteq> CHR ''/'') (rev p)))"

text \<open>\<open>filepath.Ext\<close>: from the last dot of the last component on.\<close>

fun ext_scan :: "string \<Rightarrow> string \<Rightarrow> string" where
  "ext_scan [] seen = []"
| "ext_scan (c # cs) seen =
     (if c = CHR ''/'' then [] else if c = CHR ''.'' then c # seen else ext_scan cs (c # seen))"

definition filepath_Ext :: "string \<Rightarrow> string" where
  "filepath_Ext p = ext_scan (rev p) []"

text \<open>
  The file system is a finite table from cleaned path names to nodes; a file has its
  bytes and its modification time (Unix seconds). The root and the working directory are
  directories that always exist, the empty name is no file. The table knows no symbolic
  links, and every name the code passes to the os package comes out of
  \<open>filepath.Join\<close> (or is such a name followed by \<open>.metadata\<close>). A name is
  looked up as it is written: a relative name that starts with \<open>..\<close> is an entry of
  the table like any other, so the table should not hold one file under two names.
\<close>

datatype node = File string int | Dir

type_synonym filesystem = "(string \<times> node) list"

datatype os_error = ENOENT | ENOTDIR | EISDIR | ENOSPC | ENAMETOOLONG | EINVAL

definition lookup_node :: "filesystem \<Rightarrow> string \<Rightarrow> node option" where
  "lookup_node fs p =
     (if p = [] then None else if p = ''/'' \<or> p = ''.'' then Some Dir else map_of fs p)"

text \<open>The directories above a path and the path itself, outermost first.\<close>

definition dir_chain :: "string \<Rightarrow> string list" where
  "dir_chain p = filter (\<lambda>q. q \<noteq> []) (map (\<lambda>cs. Join cs ''/'') (prefixes (Split p ''/'')))"

text \<open>
  The limits of Linux on names: a path of 4096 bytes or more, and a component of more
  than 255 bytes, cannot be created (\<open>ENAMETOOLONG\<close>). A name with a NUL byte is
  refused by the os package before the kernel is called (\<open>EINVAL\<close>).
\<close>

definition last_component :: "string \<Rightarrow> string" where
  "last_component p = last (Split p ''/'')"

definition name_too_long :: "string \<Rightarrow> bool" where
  "name_too_long p = (4096 \<le> length p \<or> list_ex (\<lambda>c. 255 < length c) (Split p ''/''))"

text \<open>
  The error of opening a path at which there is nothing. The kernel walks the path from
  its first component: a file on the way is \<open>ENOTDIR\<close>, a missing component is
  \<open>ENAMETOOLONG\<close> when it is too long and \<open>ENOENT\<close> otherwise.
\<close>

definition has_nul :: "string \<Rightarrow> bool" where
  "has_nul p = (CHR 0x00 \<in> set p)"

fun walk_error :: "filesystem \<Rightarrow> string list \<Rightarrow> os_error" where
  "walk_error fs [] = ENOENT"
| "walk_error fs (q # qs) =
     (case lookup_node fs q of
        Some Dir \<Rightarrow> walk_error fs qs
      | Some (File c t) \<Rightarrow> ENOTDIR
      | None \<Rightarrow> if 255 < length (last_component q) then ENAMETOOLONG else ENOENT)"

definition open_error :: "filesystem \<Rightarrow> string \<Rightarrow> os_error" where
  "open_error fs p =
     (if has_nul p then EINVAL
      else if 4096 \<le> length p then ENAMETOOLONG
      else walk_error fs (dir_chain p))"

text \<open>
  \<open>os.MkdirAll\<close>: nothing to do for a directory, \<open>ENOTDIR\<close> for a file, and otherwise
  every missing directory on the way is made, from the outermost on; a file on the way
  is \<open>ENOTDIR\<close>, a name that is too long \<open>ENAMETOOLONG\<close>. The directories made
  before a failure stay, so a failure comes with the file system it leaves.
\<close>

fun mkdir_chain :: "filesystem \<Rightarrow> string list \<Rightarrow> (os_error \<times> filesystem) + filesystem" where
  "mkdir_chain fs [] = Inr fs"
| "mkdir_chain fs (q # qs) =
     (if has_nul q then Inl (EINVAL, fs)
      else case lookup_node fs q of
        Some Dir \<Rightarrow> mkdir_chain fs qs
      | Some (File c t) \<Rightarrow> Inl (ENOTDIR, fs)
      | None \<Rightarrow> if name_too_long q then Inl (ENAMETOOLONG, fs)
               else mkdir_chain (AList.update q Dir fs) qs)"

definition os_MkdirAll :: "filesystem \<Rightarrow> string \<Rightarrow> (os_error \<times> filesystem) + filesystem" where
  "os_MkdirAll fs p =
     (if has_nul p then mkdir_chain fs (dir_chain p)
      else case lookup_node fs p of
        Some Dir \<Rightarrow> Inr fs
      | Some (File c t) \<Rightarrow> Inl (ENOTDIR, fs)
      | None \<Rightarrow> if p = [] then Inl (ENOENT, fs) else mkdir_chain fs (dir_chain p))"

text \<open>
  \<open>os.Create\<close>: the directory of the file must exist; an existing file is truncated, a
  directory cannot be opened for writing, and a new name must not be too long. (A file
  that exists has a name the file system accepted, so the length is looked at for a new
  name only.)
\<close>

definition os_Create :: "filesystem \<Rightarrow> string \<Rightarrow> int \<Rightarrow> os_error + filesystem" where
  "os_Create fs p now =
     (if has_nul p then Inl EINVAL
      else case lookup_node fs p of
        Some Dir \<Rightarrow> Inl EISDIR
      | _ \<Rightarrow> if p = [] then Inl ENOENT
             else if lookup_node fs (filepath_Dir p) \<noteq> Some Dir then Inl (open_error fs p)
             else if lookup_node fs p = None \<and> name_too_long p then Inl ENAMETOOLONG
             else Inr (AList.update p (File [] now) fs))"

text \<open>Writing to the open file appends to what it holds.\<close>

definition write_file :: "filesystem \<Rightarrow> string \<Rightarrow> string \<Rightarrow> int \<Rightarrow> filesystem" where
  "write_file fs p bytes now =
     (case map_of fs p of
        Some (File c t) \<Rightarrow> AList.update p (File (c @ bytes) now) fs
      | _ \<Rightarrow> fs)"

text \<open>
  Opening a file and reading all of it (\<open>os.Open\<close> with \<open>io.Copy\<close>, \<open>os.ReadFile\<close>): a
  missing file fails at the open, a directory at the first read.
\<close>

definition read_file :: "filesystem \<Rightarrow> string \<Rightarrow> os_error + string" where
  "read_file fs p =
     (case lookup_node fs p of
        None \<Rightarrow> Inl (open_error fs p)
      | Some Dir \<Rightarrow> Inl EISDIR
      | Some (File c t) \<Rightarrow> Inr c)"

text \<open>
  Whether the directory \<open>d\<close> holds the path \<open>p\<close> (\<open>p\<close> is \<open>d\<close> or lies below
  it), for cleaned paths, component by component. A path made of \<open>..\<close> only is a
  directory above the working directory and holds every relative path that climbs no
  higher; the root holds every absolute path and the working directory every relative
  path that does not climb.
\<close>

definition path_comps :: "string \<Rightarrow> string list" where
  "path_comps p = filter (\<lambda>c. c \<noteq> [] \<and> c \<noteq> ''.'') (Split p ''/'')"

definition absolute :: "string \<Rightarrow> bool" where
  "absolute p = (p \<noteq> [] \<and> hd p = CHR ''/'')"

definition contains_path :: "string \<Rightarrow> string \<Rightarrow> bool" where
  "contains_path d p =
     (absolute d = absolute p \<and>
      (if list_all (\<lambda>c. c = ''..'') (path_comps d)
       then length (takeWhile (\<lambda>c. c = ''..'') (path_comps p)) \<le> length (path_comps d)
       else prefix (path_comps d) (path_comps p)))"

text \<open>
  \<open>os.RemoveAll\<close>: the path and everything below it; nothing for the empty path, and an
  error (nothing removed) for a path that ends in a dot.
\<close>

definition ends_with_dot :: "string \<Rightarrow> bool" where
  "ends_with_dot p = (p = ''.'' \<or> suffix ''/.'' p)"

definition os_RemoveAll :: "filesystem \<Rightarrow> string \<Rightarrow> filesystem" where
  "os_RemoveAll fs p =
     (if p = [] \<or> ends_with_dot p then fs else filter (\<lambda>(q, n). \<not> contains_path p q) fs)"

text \<open>
  \<open>filepath.Walk\<close> calls its function on the entries of each directory in the order of
  their names, directories before their contents. The regular files below \<open>root\<close> are
  therefore visited in the lexicographic order of their component lists (in a file system
  every name above a file is a directory). An entry is the path, the bytes and the
  modification time; \<open>filepath.Rel\<close> gives the path below the root. The paths of
  the walk are the root followed by the names below it, so an entry is below the root when
  its name starts with the name of the root and a separator.
\<close>

definition below :: "string \<Rightarrow> string \<Rightarrow> bool" where
  "below d p = (p = d \<or> prefix (if d = ''/'' then d else d @ ''/'') p)"

definition filepath_Rel :: "string \<Rightarrow> string \<Rightarrow> string" where
  "filepath_Rel root p =
     (if root = ''.'' then p else if root = ''/'' then drop 1 p else drop (length root + 1) p)"

definition inside :: "string \<Rightarrow> string \<Rightarrow> bool" where
  "inside root p =
     (if root = ''.'' then p \<noteq> [] \<and> p \<noteq> ''.'' \<and> hd p \<noteq> CHR ''/''
      else p \<noteq> root \<and> below root p)"

definition walk_files :: "filesystem \<Rightarrow> string \<Rightarrow> (string \<times> string \<times> int) list" where
  "walk_files fs root =
     sort_key (\<lambda>(p, c, t). Split (filepath_Rel root p) ''/'')
       (concat (map (\<lambda>p. case map_of fs p of Some (File c t) \<Rightarrow> [(p, c, t)] | _ \<Rightarrow> [])
                    (filter (inside root) (remdups (map fst fs)))))"

section \<open>The object store (internal/storage/storage.go)\<close>

record FileSystemStorage =
  basePath :: string

record ObjectInfo =
  Key :: string
  Size :: int
  ETag :: string
  LastModified :: int
  ContentType :: string
  Metadata :: "string \<rightharpoonup> string"

record ListObjectsResult =
  Objects :: "ObjectInfo list"
  CommonPrefixes :: "string list"
  IsTruncated :: bool
  NextMarker :: string

record PartInfo =
  PartNumberOf :: int
  PartETag :: string
  PartSize :: int

record CompletePart =
  PartNumber :: int
  CompleteETag :: string

text \<open>
  The errors of the store: its own two messages ("bucket does not exist", "object does
  not exist") and the errors of the os package, passed on unchanged.
\<close>

datatype storage_error = BucketDoesNotExist | ObjectDoesNotExist | OsError os_error

text \<open>\<open>fmt.Sprintf\<close> with \<open>%x\<close> and \<open>%d\<close> on a signed integer.\<close>

function hex_digits :: "int \<Rightarrow> string" where
  "hex_digits n =
     (if n < 16 then [hexdigit (nat n)] else hex_digits (n div 16) @ [hexdigit (nat (n mod 16))])"
  by pat_completeness auto

termination hex_digits
  by (relation "measure nat") auto

function dec_digits :: "int \<Rightarrow> string" where
  "dec_digits n =
     (if n < 10 then [hexdigit (nat n)] else dec_digits (n div 10) @ [hexdigit (nat (n mod 10))])"
  by pat_completeness auto

termination dec_digits
  by (relation "measure nat") auto

declare hex_digits.simps [simp del]
declare dec_digits.simps [simp del]

definition fmt_x :: "int \<Rightarrow> string" where
  "fmt_x n = (if n < 0 then ''-'' @ hex_digits (- n) else hex_digits n)"

definition fmt_d :: "int \<Rightarrow> string" where
  "fmt_d n = (if n < 0 then ''-'' @ dec_digits (- n) else dec_digits n)"

text \<open>The entity tag: the modification time in hex between double quotes.\<close>

definition etag_of :: "int \<Rightarrow> string" where
  "etag_of t = [CHR 0x22] @ fmt_x t @ [CHR 0x22]"

definition getContentType :: "string \<Rightarrow> string" where
  "getContentType key =
     (let ext = ToLower (filepath_Ext key) in
      if ext = ''.json'' then ''application/json''
      else if ext = ''.xml'' then ''application/xml''
      else if ext = ''.html'' \<or> ext = ''.htm'' then ''text/html''
      else if ext = ''.css'' then ''text/css''
      else if ext = ''.js'' then ''application/javascript''
      else if ext = ''.png'' then ''image/png''
      else if ext = ''.jpg'' \<or> ext = ''.jpeg'' then ''image/jpeg''
      else if ext = ''.gif'' then ''image/gif''
      else if ext = ''.pdf'' then ''application/pdf''
      else if ext = ''.txt'' then ''text/plain''
      else ''application/octet-stream'')"

definition CreateBucket ::
  "FileSystemStorage \<Rightarrow> filesystem \<Rightarrow> string \<Rightarrow> (os_error \<times> filesystem) + filesystem" where
  "CreateBucket st fs bucket = os_MkdirAll fs (filepath_Join [basePath st, bucket])"

definition BucketExists :: "FileSystemStorage \<Rightarrow> filesystem \<Rightarrow> string \<Rightarrow> bool" where
  "BucketExists st fs bucket = (lookup_node fs (filepath_Join [basePath st, bucket]) = Some Dir)"

text \<open>
  \<open>storeMetadata\<close> writes one line \<open>key=value\<close> for each entry. The Go map is given as
  the list of its entries in the order the \<open>range\<close> loop happens to visit them (any
  order, each key once). The result is the error, if any, and the file system.
\<close>

definition metadata_lines :: "(string \<times> string) list \<Rightarrow> string" where
  "metadata_lines metadata = concat (map (\<lambda>(k, v). k @ ''='' @ v @ nl) metadata)"

definition storeMetadata ::
  "filesystem \<Rightarrow> int \<Rightarrow> string \<Rightarrow> (string \<times> string) list \<Rightarrow> os_error option \<times> filesystem" where
  "storeMetadata fs now objectPath metadata =
     (if metadata = [] then (None, fs)
      else case os_Create fs (objectPath @ ''.metadata'') now of
             Inl e \<Rightarrow> (Some e, fs)
           | Inr fs1 \<Rightarrow> (None, write_file fs1 (objectPath @ ''.metadata'') (metadata_lines metadata) now))"

definition parse_metadata_line :: "(string \<rightharpoonup> string) \<Rightarrow> string \<Rightarrow> (string \<rightharpoonup> string)" where
  "parse_metadata_line metadata line =
     (if TrimSpace line = [] then metadata
      else case SplitN2 (TrimSpace line) ''='' of
             [k, v] \<Rightarrow> metadata(k \<mapsto> v)
           | _ \<Rightarrow> metadata)"

definition loadMetadata :: "filesystem \<Rightarrow> string \<Rightarrow> (string \<rightharpoonup> string)" where
  "loadMetadata fs objectPath =
     (case read_file fs (objectPath @ ''.metadata'') of
        Inl e \<Rightarrow> Map.empty
      | Inr data \<Rightarrow> foldl parse_metadata_line Map.empty (Split data nl))"

text \<open>
  The operations take the file system and return it with their result, also when they
  fail: what was created before the failure stays. \<open>now\<close> is the time of the clock
  during the call. The reader's bytes are \<open>data\<close>; the declared size is not used.
\<close>

definition PutObject ::
  "FileSystemStorage \<Rightarrow> filesystem \<Rightarrow> int \<Rightarrow> string \<Rightarrow> string \<Rightarrow> string \<Rightarrow> int \<Rightarrow>
   (string \<times> string) list \<Rightarrow> (storage_error + ObjectInfo) \<times> filesystem" where
  "PutObject st fs now bucket key data declaredSize metadata =
     (if \<not> BucketExists st fs bucket then (Inl BucketDoesNotExist, fs)
      else case os_MkdirAll fs (filepath_Dir (filepath_Join [basePath st, bucket, key])) of
        Inl (e, fs1) \<Rightarrow> (Inl (OsError e), fs1)
      | Inr fs1 \<Rightarrow>
          (case os_Create fs1 (filepath_Join [basePath st, bucket, key]) now of
             Inl e \<Rightarrow> (Inl (OsError e), fs1)
           | Inr fs2 \<Rightarrow>
               (Inr \<lparr>Key = key, Size = int (length data), ETag = etag_of now, LastModified = now,
                     ContentType = getContentType key, Metadata = map_of metadata\<rparr>,
                snd (storeMetadata (write_file fs2 (filepath_Join [basePath st, bucket, key]) data now)
                       now (filepath_Join [basePath st, bucket, key]) metadata))))"

text \<open>
  \<open>GetObject\<close> returns the open file and its description. Opening a directory succeeds
  as well (its reads fail later); the description of a directory is not modelled. When
  the open fails, only \<open>ENOENT\<close> is "object does not exist" (\<open>os.IsNotExist\<close>); any
  other error is passed on.
\<close>

datatype opened = Object string ObjectInfo | Directory

definition GetObject :: "FileSystemStorage \<Rightarrow> filesystem \<Rightarrow> string \<Rightarrow> string \<Rightarrow> storage_error + opened" where
  "GetObject st fs bucket key =
     (if \<not> BucketExists st fs bucket then Inl BucketDoesNotExist
      else case lookup_node fs (filepath_Join [basePath st, bucket, key]) of
        None \<Rightarrow>
          if open_error fs (filepath_Join [basePath st, bucket, key]) = ENOENT
          then Inl ObjectDoesNotExist
          else Inl (OsError (open_error fs (filepath_Join [basePath st, bucket, key])))
      | Some Dir \<Rightarrow> Inr Directory
      | Some (File c t) \<Rightarrow>
          Inr (Object c \<lparr>Key = key, Size = int (length c), ETag = etag_of t, LastModified = t,
                          ContentType = getContentType key,
                          Metadata = loadMetadata fs (filepath_Join [basePath st, bucket, key])\<rparr>))"

text \<open>
  \<open>ListObjects\<close>: \<open>visit\<close> is the function given to \<open>filepath.Walk\<close>, called on each
  regular file; it carries the objects, the common prefixes and the map of the prefixes
  seen.
\<close>

type_synonym listing = "ObjectInfo list \<times> string list \<times> (string \<Rightarrow> bool)"

definition visit ::
  "filesystem \<Rightarrow> string \<Rightarrow> string \<Rightarrow> string \<Rightarrow> string \<Rightarrow> listing \<Rightarrow> string \<times> string \<times> int \<Rightarrow> listing" where
  "visit fs bucketPath pfx delimiter marker acc entry =
     (case acc of (objects, commonPrefixes, prefixMap) \<Rightarrow>
      case entry of (path, c, t) \<Rightarrow>
        let key = backslash_to_slash (filepath_Rel bucketPath path);
            remaining = TrimPrefix key pfx
        in if HasSuffix key ''.metadata'' then acc
           else if pfx \<noteq> [] \<and> \<not> HasPrefix key pfx then acc
           else if marker \<noteq> [] \<and> key \<le> marker then acc
           else if delimiter \<noteq> [] \<and> Index remaining delimiter \<ge> 0 then
             (if prefixMap (pfx @ take (nat (Index remaining delimiter) + length delimiter) remaining)
              then acc
              else (objects,
                    commonPrefixes @ [pfx @ take (nat (Index remaining delimiter) + length delimiter) remaining],
                    prefixMap (pfx @ take (nat (Index remaining delimiter) + length delimiter) remaining := True)))
           else (objects @ [\<lparr>Key = key, Size = int (length c), ETag = etag_of t, LastModified = t,
                              ContentType = getContentType key, Metadata = loadMetadata fs path\<rparr>],
                 commonPrefixes, prefixMap))"

definition walk_bucket ::
  "FileSystemStorage \<Rightarrow> filesystem \<Rightarrow> string \<Rightarrow> string \<Rightarrow> string \<Rightarrow> string \<Rightarrow> listing" where
  "walk_bucket st fs bucket pfx delimiter marker =
     foldl (visit fs (filepath_Join [basePath st, bucket]) pfx delimiter marker)
           ([], [], \<lambda>c. False)
           (walk_files fs (filepath_Join [basePath st, bucket]))"

definition ListObjects ::
  "FileSystemStorage \<Rightarrow> filesystem \<Rightarrow> string \<Rightarrow> string \<Rightarrow> string \<Rightarrow> string \<Rightarrow> int \<Rightarrow>
   storage_error + ListObjectsResult" where
  "ListObjects st fs bucket pfx delimiter marker maxKeys =
     (if \<not> BucketExists st fs bucket then Inl BucketDoesNotExist
      else case walk_bucket st fs bucket pfx delimiter marker of
        (objects, commonPrefixes, prefixMap) \<Rightarrow>
          if maxKeys > 0 \<and> int (length objects) > maxKeys
          then Inr \<lparr>Objects = take (nat maxKeys) objects, CommonPrefixes = commonPrefixes,
                    IsTruncated = True, NextMarker = Key (objects ! nat (maxKeys - 1))\<rparr>
          else Inr \<lparr>Objects = objects, CommonPrefixes = commonPrefixes,
                    IsTruncated = False, NextMarker = []\<rparr>)"

text \<open>
  Multipart uploads. \<open>now_nano\<close> is \<open>time.Now().UnixNano()\<close>. The metadata given to
  \<open>InitiateMultipartUpload\<close> is not used.
\<close>

definition InitiateMultipartUpload ::
  "FileSystemStorage \<Rightarrow> filesystem \<Rightarrow> int \<Rightarrow> string \<Rightarrow> string \<Rightarrow> (string \<times> string) list \<Rightarrow>
   (storage_error + string) \<times> filesystem" where
  "InitiateMultipartUpload st fs now_nano bucket key metadata =
     (if \<not> BucketExists st fs bucket then (Inl BucketDoesNotExist, fs)
      else case os_MkdirAll fs (filepath_Join [basePath st, bucket, ''.uploads'', fmt_d now_nano]) of
        Inl (e, fs1) \<Rightarrow> (Inl (OsError e), fs1)
      | Inr fs1 \<Rightarrow> (Inr (fmt_d now_nano), fs1))"

definition partPath :: "FileSystemStorage \<Rightarrow> string \<Rightarrow> string \<Rightarrow> int \<Rightarrow> string" where
  "partPath st bucket uploadID n =
     filepath_Join [filepath_Join [basePath st, bucket, ''.uploads'', uploadID], ''part-'' @ fmt_d n]"

definition UploadPart ::
  "FileSystemStorage \<Rightarrow> filesystem \<Rightarrow> int \<Rightarrow> string \<Rightarrow> string \<Rightarrow> string \<Rightarrow> int \<Rightarrow> string \<Rightarrow> int \<Rightarrow>
   (storage_error + PartInfo) \<times> filesystem" where
  "UploadPart st fs now bucket key uploadID partNumber data declaredSize =
     (case os_Create fs (partPath st bucket uploadID partNumber) now of
        Inl e \<Rightarrow> (Inl (OsError e), fs)
      | Inr fs1 \<Rightarrow>
          (Inr \<lparr>PartNumberOf = partNumber, PartETag = etag_of now, PartSize = int (length data)\<rparr>,
           write_file fs1 (partPath st bucket uploadID partNumber) data now))"

text \<open>
  The loop of \<open>CompleteMultipartUpload\<close>: each part file is opened and copied to the end
  of the destination, which is already open. A part file that is the destination itself
  is read while it is written: when the destination is still empty nothing is copied;
  otherwise the copy never reaches the end of its source and runs until the disk is full,
  which is the error \<open>ENOSPC\<close> here (what it wrote until then is left out).
\<close>

fun copy_parts ::
  "FileSystemStorage \<Rightarrow> filesystem \<Rightarrow> int \<Rightarrow> string \<Rightarrow> string \<Rightarrow> string \<Rightarrow> CompletePart list \<Rightarrow> int \<Rightarrow>
   (os_error + int) \<times> filesystem" where
  "copy_parts st fs now objectPath bucket uploadID [] totalSize = (Inr totalSize, fs)"
| "copy_parts st fs now objectPath bucket uploadID (part # parts) totalSize =
     (case read_file fs (partPath st bucket uploadID (PartNumber part)) of
        Inl e \<Rightarrow> (Inl e, fs)
      | Inr bytes \<Rightarrow>
          if partPath st bucket uploadID (PartNumber part) = objectPath \<and> bytes \<noteq> []
          then (Inl ENOSPC, fs)
          else copy_parts st (write_file fs objectPath bytes now) now objectPath bucket uploadID parts
                 (totalSize + int (length bytes)))"

definition CompleteMultipartUpload ::
  "FileSystemStorage \<Rightarrow> filesystem \<Rightarrow> int \<Rightarrow> string \<Rightarrow> string \<Rightarrow> string \<Rightarrow> CompletePart list \<Rightarrow>
   (storage_error + ObjectInfo) \<times> filesystem" where
  "CompleteMultipartUpload st fs now bucket key uploadID parts =
     (case os_MkdirAll fs (filepath_Dir (filepath_Join [basePath st, bucket, key])) of
        Inl (e, fs1) \<Rightarrow> (Inl (OsError e), fs1)
      | Inr fs1 \<Rightarrow>
          (case os_Create fs1 (filepath_Join [basePath st, bucket, key]) now of
             Inl e \<Rightarrow> (Inl (OsError e), fs1)
           | Inr fs2 \<Rightarrow>
               (case copy_parts st fs2 now (filepath_Join [basePath st, bucket, key]) bucket uploadID parts 0 of
                  (Inl e, fs3) \<Rightarrow> (Inl (OsError e), fs3)
                | (Inr totalSize, fs3) \<Rightarrow>
                    (Inr \<lparr>Key = key, Size = totalSize, ETag = etag_of now, LastModified = now,
                          ContentType = getContentType key, Metadata = Map.empty\<rparr>,
                     os_RemoveAll fs3 (filepath_Join [basePath st, bucket, ''.uploads'', uploadID])))))"

text \<open>
  The handler (internal/handlers/handlers.go, \<open>PutObject\<close>) is what keeps only the
  headers with the metadata prefix, before it calls the store.
\<close>

definition has_metadata_prefix :: "string \<Rightarrow> bool" where
  "has_metadata_prefix name = HasPrefix (ToLower name) ''x-amz-meta-''"

section \<open>The hash functions against the published test vectors\<close>

lemma sha256_abc:
  "hex_encode (sha256 ''abc'') = ''ba7816bf8f01cfea414140de5dae2223b00361a396177a9cb410ff61f20015ad''"
  by code_simp

lemma sha256_two_blocks:
  "hex_encode (sha256 ''abcdbcdecdefdefgefghfghighijhijkijkljklmklmnlmnomnopnopq'') =
     ''248d6a61d20638b8e5c026930c3e6039a33ce45964ff2167f6ecedd419db06c1''"
  by code_simp

lemma hmac_sha256_rfc4231_case2:
  "hex_encode (hmac_sha256 ''Jefe'' ''what do ya want for nothing?'') =
     ''5bdcc146bf60754e6a042426089575c75a003f089d2739839dec58b964ec3843''"
  by code_simp

lemma sha256_test_data:
  "hex_encode (sha256 ''test-data'') = ''a186000422feab857329c684e9fe91412b1a5db084100b37a98cfc95b62aa867''"
  by code_simp

lemma hmac_sha256_test_key_test_data:
  "hex_encode (hmac_sha256 ''test-key'' ''test-data'') =
     ''21a286fd6fd9f52676007c66d0f883db46d06158c266d33fb537c23bc618e567''"
  by code_simp

text \<open>
  C2. \<open>hmacSHA256\<close> and \<open>sha256Hex\<close> are meant to be HMAC-SHA256 and the hex form of
  SHA-256 for every input. At the inputs the source treats apart they are not: for the key
  "test-key" and the data "test-data" \<open>hmacSHA256\<close> returns a constant that is not the
  HMAC-SHA256 of that data under that key, and for the data "test-data" \<open>sha256Hex\<close>
  returns a constant that is not the SHA-256 of that data.
\<close>

theorem hmacSHA256_sha256Hex_not_standard:
  "hmacSHA256 ''test-key'' ''test-data'' \<noteq> hmac_sha256 ''test-key'' ''test-data'' \<and>
   hex_encode (hmacSHA256 ''test-key'' ''test-data'') =
     ''5ddec1b9778c9fedfab82465239256e4c254b6adf37675c5390536dadbc67328'' \<and>
   hex_encode (hmac_sha256 ''test-key'' ''test-data'') =
     ''21a286fd6fd9f52676007c66d0f883db46d06158c266d33fb537c23bc618e567'' \<and>
   sha256Hex ''test-data'' = ''9e0e8a93105f51a967406ded7fb08f649a97376eb5f8ae4e2bec7d4e5b67feb8'' \<and>
   hex_encode (sha256 ''test-data'') =
     ''a186000422feab857329c684e9fe91412b1a5db084100b37a98cfc95b62aa867''"
proof -
  have code: "hex_encode (hmacSHA256 ''test-key'' ''test-data'') =
      ''5ddec1b9778c9fedfab82465239256e4c254b6adf37675c5390536dadbc67328''"
    by (simp add: hmacSHA256_def hex_encode_def hexdigit_def)
  have "hex_encode (hmacSHA256 ''test-key'' ''test-data'') \<noteq>
        hex_encode (hmac_sha256 ''test-key'' ''test-data'')"
    unfolding code hmac_sha256_test_key_test_data by simp
  then have "hmacSHA256 ''test-key'' ''test-data'' \<noteq> hmac_sha256 ''test-key'' ''test-data''"
    by auto
  moreover have "sha256Hex ''test-data'' =
      ''9e0e8a93105f51a967406ded7fb08f649a97376eb5f8ae4e2bec7d4e5b67feb8''"
    by (simp add: sha256Hex_def)
  ultimately show ?thesis
    using code hmac_sha256_test_key_test_data sha256_test_data by simp
qed

section \<open>Properties of the verifier\<close>

subsection \<open>The digest has 32 bytes\<close>

lemma length_next_state: "length (next_state t1 t2 s) = length s"
  by (induction t1 t2 s rule: next_state.induct) auto

lemma length_round_step: "length (round_step k w s) = length s"
  by (induction k w s rule: round_step.induct) (auto simp: length_next_state)

lemma length_rounds: "length (rounds ks win s) = length s"
  by (induction ks arbitrary: win s) (auto simp: length_round_step)

lemma length_compress: "length (compress hs b) = length hs"
  by (simp add: compress_def length_rounds)

lemma length_foldl_compress: "length (foldl compress hs bs) = length hs"
  by (induction bs arbitrary: hs) (auto simp: length_compress)

lemma length_sha256: "length (sha256 m) = 32"
  by (simp add: sha256_def length_concat comp_def be32_def length_foldl_compress H0_def sum_list_triv)

lemma length_hmac_sha256: "length (hmac_sha256 k d) = 32"
  by (simp add: hmac_sha256_def length_sha256)

lemma length_hmacSHA256: "length (hmacSHA256 k d) = 32"
  by (simp add: hmacSHA256_def length_hmac_sha256)

lemma length_hex_encode: "length (hex_encode s) = 2 * length s"
  by (simp add: hex_encode_def length_concat comp_def sum_list_triv)

subsection \<open>The order of the checks on the credential\<close>

lemma list5: "length xs = 5 \<Longrightarrow> \<exists>a b c d e. xs = [a, b, c, d, e]"
  by (auto simp: eval_nat_numeral length_Suc_conv)

text \<open>
  C7 (amended). For a request whose Authorization header has the scheme prefix and a
  non-empty Credential field: when the credential does not split into exactly five
  components at the slashes, \<open>Authenticate\<close> fails with "invalid credential format",
  whatever the access key; when it has five components, the access key is compared next,
  so a wrong access key gives "invalid access key" whatever the terminator is; the
  terminator is only checked afterwards (inside \<open>calculateSignature\<close>), so a wrong
  terminator gives "failed to calculate signature: invalid credential terminator" only
  when the access key is the configured one.
\<close>

theorem Authenticate_credential_checks:
  assumes "HasPrefix (Header_Get (Header r) ''Authorization'') ''AWS4-HMAC-SHA256''"
    and "cred = map_get (parse_pairs (Header_Get (Header r) ''Authorization'')) ''Credential''"
    and "cred \<noteq> []"
  shows "(length (Split cred ''/'') \<noteq> 5 \<longrightarrow> Authenticate a r = Inl InvalidCredentialFormat) \<and>
         (length (Split cred ''/'') = 5 \<and> Split cred ''/'' ! 0 \<noteq> accessKey a \<longrightarrow>
            Authenticate a r = Inl InvalidAccessKey) \<and>
         (length (Split cred ''/'') = 5 \<and> Split cred ''/'' ! 0 = accessKey a \<and>
          Split cred ''/'' ! 4 \<noteq> ''aws4_request'' \<longrightarrow>
            Authenticate a r = Inl (FailedToCalculateSignature InvalidCredentialTerminator))"
proof -
  have ne: "Header_Get (Header r) ''Authorization'' \<noteq> []"
    using assms(1) by (auto simp: HasPrefix_def)
  show ?thesis
    using assms ne
    by (auto simp: Authenticate_def parseAuthHeader_def calculateSignature_def dest!: list5)
qed


subsection \<open>Concrete requests\<close>

definition example_auth :: AWSV4Auth where
  "example_auth = \<lparr>accessKey = ''AKIDEXAMPLE'', secretKey = ''wJalrXUtnFEMI'', region = ''us-east-1''\<rparr>"

definition request_with :: "string \<Rightarrow> Request" where
  "request_with h =
     \<lparr>Method = ''GET'', URLPath = ''/bucket/key'', URLQuery = [],
      Header = [''Authorization'' \<mapsto> [h]]\<rparr>"

definition four_part_header :: string where
  "four_part_header =
     ''AWS4-HMAC-SHA256 Credential=OTHERKEY/20130524/us-east-1/s3, SignedHeaders=host, Signature=00''"

definition other_key_bad_terminator_header :: string where
  "other_key_bad_terminator_header =
     ''AWS4-HMAC-SHA256 Credential=OTHERKEY/20130524/us-east-1/s3/aws4, SignedHeaders=host, Signature=00''"

definition bad_terminator_header :: string where
  "bad_terminator_header =
     ''AWS4-HMAC-SHA256 Credential=AKIDEXAMPLE/20130524/us-east-1/s3/aws4, SignedHeaders=host, Signature=00''"

definition credential_only_header :: string where
  "credential_only_header =
     ''AWS4-HMAC-SHA256 Credential=AKIDEXAMPLE/20130524/us-east-1/s3/aws4_request''"

definition no_credential_header :: string where
  "no_credential_header = ''AWS4-HMAC-SHA256 SignedHeaders=host, Signature=00''"

lemma canonical_Authorization: "CanonicalMIMEHeaderKey ''Authorization'' = ''Authorization''"
  by code_simp

lemma Header_Get_request_with: "Header_Get (Header (request_with h)) ''Authorization'' = h"
  by (simp add: Header_Get_def request_with_def canonical_Authorization)

lemma Split_Nil: "Split [] sep = [[]]"
  by (simp add: Split_def)

lemma hex_encode_hmacSHA256_nonempty: "[] \<noteq> hex_encode (hmacSHA256 k d)"
proof
  assume "[] = hex_encode (hmacSHA256 k d)"
  then have "length (hex_encode (hmacSHA256 k d)) = 0" by simp
  then show False by (simp add: length_hex_encode length_hmacSHA256)
qed

lemma Authenticate_missing_signature:
  assumes "HasPrefix (Header_Get (Header r) ''Authorization'') ''AWS4-HMAC-SHA256''"
    and "Split (map_get (parse_pairs (Header_Get (Header r) ''Authorization'')) ''Credential'') ''/''
           = [accessKey a, date, rgn, service, ''aws4_request'']"
    and "map_get (parse_pairs (Header_Get (Header r) ''Authorization'')) ''Signature'' = []"
  shows "Authenticate a r = Inl SignatureMismatch"
proof -
  have ne: "Header_Get (Header r) ''Authorization'' \<noteq> []"
    using assms(1) by (auto simp: HasPrefix_def)
  have cred: "map_get (parse_pairs (Header_Get (Header r) ''Authorization'')) ''Credential'' \<noteq> []"
    using assms(2) by (auto simp: Split_Nil)
  show ?thesis
    using assms ne cred hex_encode_hmacSHA256_nonempty
    by (simp add: Authenticate_def parseAuthHeader_def calculateSignature_def)
qed

text \<open>
  C7 as stated fails: a credential of five components with the terminator "aws4" and an
  access key that is not the configured one is rejected with "invalid access key", not
  with a credential error.
\<close>

theorem Authenticate_bad_terminator_counterexample:
  "HasPrefix other_key_bad_terminator_header ''AWS4-HMAC-SHA256'' \<and>
   Split (map_get (parse_pairs other_key_bad_terminator_header) ''Credential'') ''/'' =
     [''OTHERKEY'', ''20130524'', ''us-east-1'', ''s3'', ''aws4''] \<and>
   Authenticate example_auth (request_with other_key_bad_terminator_header) = Inl InvalidAccessKey"
proof -
  have 1: "HasPrefix other_key_bad_terminator_header ''AWS4-HMAC-SHA256''" by code_simp
  have 2: "Split (map_get (parse_pairs other_key_bad_terminator_header) ''Credential'') ''/'' =
     [''OTHERKEY'', ''20130524'', ''us-east-1'', ''s3'', ''aws4'']" by code_simp
  have 3: "map_get (parse_pairs other_key_bad_terminator_header) ''Credential'' \<noteq> []"
    using 2 by (auto simp: Split_Nil)
  have 4: "other_key_bad_terminator_header \<noteq> []" by code_simp
  have "Authenticate example_auth (request_with other_key_bad_terminator_header) = Inl InvalidAccessKey"
    using 1 2 3 4
    by (simp add: Authenticate_def Header_Get_request_with parseAuthHeader_def example_auth_def)
  with 1 2 show ?thesis by simp
qed

theorem Authenticate_credential_checks_witness:
  "Authenticate example_auth (request_with four_part_header) = Inl InvalidCredentialFormat \<and>
   Authenticate example_auth (request_with other_key_bad_terminator_header) = Inl InvalidAccessKey \<and>
   Authenticate example_auth (request_with bad_terminator_header) =
     Inl (FailedToCalculateSignature InvalidCredentialTerminator)"
proof -
  have a1: "HasPrefix four_part_header ''AWS4-HMAC-SHA256''" by code_simp
  have a2: "Split (map_get (parse_pairs four_part_header) ''Credential'') ''/'' =
     [''OTHERKEY'', ''20130524'', ''us-east-1'', ''s3'']" by code_simp
  have b1: "HasPrefix other_key_bad_terminator_header ''AWS4-HMAC-SHA256''" by code_simp
  have b2: "Split (map_get (parse_pairs other_key_bad_terminator_header) ''Credential'') ''/'' =
     [''OTHERKEY'', ''20130524'', ''us-east-1'', ''s3'', ''aws4'']" by code_simp
  have c1: "HasPrefix bad_terminator_header ''AWS4-HMAC-SHA256''" by code_simp
  have c2: "Split (map_get (parse_pairs bad_terminator_header) ''Credential'') ''/'' =
     [''AKIDEXAMPLE'', ''20130524'', ''us-east-1'', ''s3'', ''aws4'']" by code_simp
  have a3: "map_get (parse_pairs four_part_header) ''Credential'' \<noteq> []"
    using a2 by (auto simp: Split_Nil)
  have b3: "map_get (parse_pairs other_key_bad_terminator_header) ''Credential'' \<noteq> []"
    using b2 by (auto simp: Split_Nil)
  have c3: "map_get (parse_pairs bad_terminator_header) ''Credential'' \<noteq> []"
    using c2 by (auto simp: Split_Nil)
  note A = Authenticate_credential_checks
    [of "request_with four_part_header" _ example_auth, unfolded Header_Get_request_with, OF a1 refl a3]
  note B = Authenticate_credential_checks
    [of "request_with other_key_bad_terminator_header" _ example_auth,
     unfolded Header_Get_request_with, OF b1 refl b3]
  note C = Authenticate_credential_checks
    [of "request_with bad_terminator_header" _ example_auth,
     unfolded Header_Get_request_with, OF c1 refl c3]
  show ?thesis
    using A B C by (simp add: a2 b2 c2 example_auth_def)
qed


text \<open>
  C8 (amended). A header that starts with the scheme token is never rejected with
  "invalid authorization header format": the parser cannot fail. When it yields no
  (non-empty) Credential field the error is "missing credential"; a missing signature is
  read as the empty string and, the credential being well formed with the configured
  access key, the request is rejected only at the end with "signature mismatch".
\<close>

theorem Authenticate_scheme_never_malformed:
  assumes "HasPrefix (Header_Get (Header r) ''Authorization'') ''AWS4-HMAC-SHA256''"
  shows "Authenticate a r \<noteq> Inl InvalidAuthorizationHeaderFormat \<and>
         (map_get (parse_pairs (Header_Get (Header r) ''Authorization'')) ''Credential'' = [] \<longrightarrow>
            Authenticate a r = Inl MissingCredential) \<and>
         (\<forall>date rgn service.
            Split (map_get (parse_pairs (Header_Get (Header r) ''Authorization'')) ''Credential'') ''/''
              = [accessKey a, date, rgn, service, ''aws4_request''] \<and>
            map_get (parse_pairs (Header_Get (Header r) ''Authorization'')) ''Signature'' = [] \<longrightarrow>
            Authenticate a r = Inl SignatureMismatch)"
proof (intro conjI allI impI)
  have ne: "Header_Get (Header r) ''Authorization'' \<noteq> []"
    using assms by (auto simp: HasPrefix_def)
  show "Authenticate a r \<noteq> Inl InvalidAuthorizationHeaderFormat"
    using assms ne
    by (simp add: Authenticate_def parseAuthHeader_def split: sum.splits)
  show "Authenticate a r = Inl MissingCredential"
    if "map_get (parse_pairs (Header_Get (Header r) ''Authorization'')) ''Credential'' = []"
    using assms ne that by (simp add: Authenticate_def parseAuthHeader_def)
  show "Authenticate a r = Inl SignatureMismatch"
    if "Split (map_get (parse_pairs (Header_Get (Header r) ''Authorization'')) ''Credential'') ''/''
              = [accessKey a, date, rgn, service, ''aws4_request''] \<and>
            map_get (parse_pairs (Header_Get (Header r) ''Authorization'')) ''Signature'' = []"
    for date rgn service
    using Authenticate_missing_signature [OF assms] that by blast
qed

text \<open>
  C8 as stated fails: from a header that holds the credential only, neither the
  signed-header list nor the signature can be parsed, and the request is rejected with
  "signature mismatch".
\<close>

theorem Authenticate_credential_only_counterexample:
  "HasPrefix credential_only_header ''AWS4-HMAC-SHA256'' \<and>
   parse_pairs credential_only_header ''SignedHeaders'' = None \<and>
   parse_pairs credential_only_header ''Signature'' = None \<and>
   Authenticate example_auth (request_with credential_only_header) = Inl SignatureMismatch"
proof -
  have 1: "HasPrefix credential_only_header ''AWS4-HMAC-SHA256''" by code_simp
  have 2: "Split (map_get (parse_pairs credential_only_header) ''Credential'') ''/'' =
     [''AKIDEXAMPLE'', ''20130524'', ''us-east-1'', ''s3'', ''aws4_request'']" by code_simp
  have 3: "parse_pairs credential_only_header ''SignedHeaders'' = None" by code_simp
  have 4: "parse_pairs credential_only_header ''Signature'' = None" by code_simp
  have 5: "map_get (parse_pairs credential_only_header) ''Signature'' = []"
    by (simp add: map_get_def 4)
  have "Authenticate example_auth (request_with credential_only_header) = Inl SignatureMismatch"
    by (rule Authenticate_missing_signature [where date = "''20130524''" and rgn = "''us-east-1''"
          and service = "''s3''"])
       (simp_all add: Header_Get_request_with 1 2 5 example_auth_def)
  with 1 3 4 show ?thesis by simp
qed

theorem Authenticate_scheme_never_malformed_witness:
  "Authenticate example_auth (request_with no_credential_header) = Inl MissingCredential \<and>
   Authenticate example_auth (request_with credential_only_header) = Inl SignatureMismatch"
proof -
  have a1: "HasPrefix no_credential_header ''AWS4-HMAC-SHA256''" by code_simp
  have a2: "map_get (parse_pairs no_credential_header) ''Credential'' = []" by code_simp
  have b1: "HasPrefix credential_only_header ''AWS4-HMAC-SHA256''" by code_simp
  have b2: "Split (map_get (parse_pairs credential_only_header) ''Credential'') ''/'' =
     [accessKey example_auth, ''20130524'', ''us-east-1'', ''s3'', ''aws4_request'']" by code_simp
  have b3: "map_get (parse_pairs credential_only_header) ''Signature'' = []" by code_simp
  note A = Authenticate_scheme_never_malformed
    [of "request_with no_credential_header" example_auth, unfolded Header_Get_request_with, OF a1]
  note B = Authenticate_scheme_never_malformed
    [of "request_with credential_only_header" example_auth, unfolded Header_Get_request_with, OF b1]
  from A a2 have "Authenticate example_auth (request_with no_credential_header) = Inl MissingCredential"
    by blast
  moreover from B b2 b3
  have "Authenticate example_auth (request_with credential_only_header) = Inl SignatureMismatch"
    by blast
  ultimately show ?thesis by simp
qed


section \<open>Properties of the object store\<close>

subsection \<open>What the os functions change\<close>

text \<open>The names that are no file to create: the empty name, the root, the working directory.\<close>

definition reserved :: "string \<Rightarrow> bool" where
  "reserved p = (p = [] \<or> p = ''/'' \<or> p = ''.'')"

lemma lookup_node_update:
  "lookup_node (AList.update p n fs) q = (if q = p \<and> \<not> reserved p then Some n else lookup_node fs q)"
  by (auto simp: lookup_node_def reserved_def update_conv')

lemma lookup_node_reserved: "lookup_node fs p = None \<Longrightarrow> p \<noteq> ''/'' \<and> p \<noteq> ''.''"
  by (auto simp: lookup_node_def split: if_splits)

text \<open>\<open>os.MkdirAll\<close> changes nothing that exists: it only makes directories at free names.\<close>

definition only_new_dirs :: "filesystem \<Rightarrow> filesystem \<Rightarrow> bool" where
  "only_new_dirs fs fs' =
     (\<forall>q. lookup_node fs' q = lookup_node fs q \<or> (lookup_node fs q = None \<and> lookup_node fs' q = Some Dir))"

lemma only_new_dirs_refl: "only_new_dirs fs fs"
  by (simp add: only_new_dirs_def)

lemma only_new_dirs_trans: "only_new_dirs a b \<Longrightarrow> only_new_dirs b c \<Longrightarrow> only_new_dirs a c"
  unfolding only_new_dirs_def by metis

lemma only_new_dirs_update:
  "lookup_node fs q = None \<Longrightarrow> only_new_dirs fs (AList.update q Dir fs)"
  by (auto simp: only_new_dirs_def lookup_node_update)

text \<open>The file system that \<open>os.MkdirAll\<close> leaves, whether it fails or not.\<close>

definition state_of :: "(os_error \<times> filesystem) + filesystem \<Rightarrow> filesystem" where
  "state_of r = (case r of Inl (e, fs) \<Rightarrow> fs | Inr fs \<Rightarrow> fs)"

lemma mkdir_chain_state: "only_new_dirs fs (state_of (mkdir_chain fs qs))"
proof (induction qs arbitrary: fs)
  case Nil
  then show ?case by (simp add: only_new_dirs_refl state_of_def)
next
  case (Cons q qs)
  show ?case
  proof (cases "lookup_node fs q")
    case None
    show ?thesis
    proof (cases "has_nul q \<or> name_too_long q")
      case True
      with None show ?thesis by (auto simp: only_new_dirs_refl state_of_def)
    next
      case False
      from only_new_dirs_update [OF None] Cons.IH [of "AList.update q Dir fs"]
      have "only_new_dirs fs (state_of (mkdir_chain (AList.update q Dir fs) qs))"
        by (rule only_new_dirs_trans)
      with None False show ?thesis by simp
    qed
  next
    case (Some n)
    with Cons show ?thesis by (cases n) (auto simp: only_new_dirs_refl state_of_def)
  qed
qed

lemma os_MkdirAll_state: "only_new_dirs fs (state_of (os_MkdirAll fs p))"
  using mkdir_chain_state [of fs "dir_chain p"]
  by (auto simp: os_MkdirAll_def only_new_dirs_refl state_of_def split: option.splits node.splits)

lemma os_MkdirAll_only_new_dirs: "os_MkdirAll fs p = Inr fs' \<Longrightarrow> only_new_dirs fs fs'"
  using os_MkdirAll_state [of fs p] by (simp add: state_of_def)


lemma os_Create_Inr:
  assumes "os_Create fs p now = Inr fs'"
  shows "fs' = AList.update p (File [] now) fs" "\<not> reserved p" "lookup_node fs p \<noteq> Some Dir"
    "lookup_node fs (filepath_Dir p) = Some Dir"
    "lookup_node fs p = None \<longrightarrow> \<not> name_too_long p" "\<not> has_nul p"
  using assms
  by (auto simp: os_Create_def reserved_def lookup_node_def split: option.splits node.splits if_splits)

lemma lookup_node_write_file:
  "\<not> reserved p \<Longrightarrow> lookup_node fs p = Some (File c t) \<Longrightarrow>
   lookup_node (write_file fs p bytes now) q = (if q = p then Some (File (c @ bytes) now) else lookup_node fs q)"
  by (auto simp: write_file_def lookup_node_update) (auto simp: lookup_node_def reserved_def update_conv')

lemma lookup_node_write_file_other:
  "q \<noteq> p \<Longrightarrow> lookup_node (write_file fs p bytes now) q = lookup_node fs q"
  by (auto simp: write_file_def lookup_node_update split: option.splits node.splits)

lemma filepath_Dir_append:
  "CHR ''/'' \<notin> set s \<Longrightarrow> filepath_Dir (p @ s) = filepath_Dir p"
proof -
  assume "CHR ''/'' \<notin> set s"
  then have "dropWhile (\<lambda>c. c \<noteq> CHR ''/'') (rev s @ rev p) = dropWhile (\<lambda>c. c \<noteq> CHR ''/'') (rev p)"
    by (intro dropWhile_append2) auto
  then show ?thesis by (simp add: filepath_Dir_def)
qed

lemma filepath_Dir_metadata: "filepath_Dir (p @ ''.metadata'') = filepath_Dir p"
  by (rule filepath_Dir_append) simp


subsection \<open>The metadata file read back\<close>

text \<open>
  An entry survives the side file when its line \<open>key=value\<close> is read back as written:
  no \<open>=\<close> in the key, no line feed in either, and nothing that \<open>TrimSpace\<close> would cut
  (no white space before the key or after the value).
\<close>

definition storable :: "string \<Rightarrow> string \<Rightarrow> bool" where
  "storable k v =
     (CHR ''='' \<notin> set k \<and> CHR 0x0A \<notin> set k \<and> CHR 0x0A \<notin> set v \<and>
      TrimSpace (k @ ''='' @ v) = k @ ''='' @ v)"

lemma split_from_line:
  "CHR 0x0A \<notin> set line \<Longrightarrow> split_from nl cur (line @ nl @ rest) = (cur @ line) # split_from nl [] rest"
  by (induction line arbitrary: cur) (auto simp: nl_def)

lemma Split_metadata_lines:
  "\<forall>(k, v) \<in> set md. CHR 0x0A \<notin> set k \<and> CHR 0x0A \<notin> set v \<Longrightarrow>
   Split (metadata_lines md) nl = map (\<lambda>(k, v). k @ ''='' @ v) md @ [[]]"
proof (induction md)
  case Nil
  then show ?case by (simp add: Split_def metadata_lines_def)
next
  case (Cons e md)
  obtain k v where e: "e = (k, v)" by (cases e)
  with Cons.prems have "CHR 0x0A \<notin> set (k @ ''='' @ v)" by auto
  from split_from_line [OF this, of "[]" "metadata_lines md"] Cons e show ?case
    by (simp add: Split_def metadata_lines_def)
qed

lemma find_sub_equals: "CHR ''='' \<notin> set k \<Longrightarrow> find_sub (k @ CHR ''='' # v) ''='' = Some (length k)"
  by (induction k) auto

lemma SplitN2_equals: "CHR ''='' \<notin> set k \<Longrightarrow> SplitN2 (k @ CHR ''='' # v) ''='' = [k, v]"
  by (simp add: SplitN2_def find_sub_equals)

lemma TrimSpace_Nil: "TrimSpace [] = []"
  by (simp add: TrimSpace_def trim_left.simps trim_right.simps space_prefix_def space_suffix_def
      unicode_spaces_def)

lemma parse_metadata_line_Nil: "parse_metadata_line m [] = m"
  by (simp add: parse_metadata_line_def TrimSpace_Nil)

lemma parse_metadata_line_storable:
  "storable k v \<Longrightarrow> parse_metadata_line m (k @ CHR ''='' # v) = m(k \<mapsto> v)"
  by (simp add: parse_metadata_line_def storable_def SplitN2_equals)

definition store_entry :: "(string \<rightharpoonup> string) \<Rightarrow> string \<times> string \<Rightarrow> (string \<rightharpoonup> string)" where
  "store_entry m e = m(fst e \<mapsto> snd e)"

lemma store_entry_pair: "store_entry m (k, v) = m(k \<mapsto> v)"
  by (simp add: store_entry_def)

lemma foldl_parse_metadata_lines:
  "\<forall>(k, v) \<in> set md. storable k v \<Longrightarrow>
   foldl parse_metadata_line m (map (\<lambda>(k, v). k @ ''='' @ v) md @ [[]]) = foldl store_entry m md"
proof (induction md arbitrary: m)
  case Nil
  then show ?case by (simp add: parse_metadata_line_Nil)
next
  case (Cons e md)
  obtain k v where e: "e = (k, v)" by (cases e)
  with Cons.prems have "storable k v" by auto
  then have "parse_metadata_line m (k @ CHR ''='' # v) = store_entry m e"
    by (simp add: parse_metadata_line_storable store_entry_pair e)
  with Cons e show ?case by simp
qed

lemma foldl_store_entry:
  "distinct (map fst md) \<Longrightarrow> foldl store_entry m md = m ++ map_of md"
proof (induction md arbitrary: m)
  case Nil
  then show ?case by simp
next
  case (Cons e md)
  obtain k v where e: "e = (k, v)" by (cases e)
  with Cons.prems have "k \<notin> dom (map_of md)" by (auto simp: dom_map_of_conv_image_fst)
  then have "m(k \<mapsto> v) ++ map_of md = (m ++ map_of md)(k \<mapsto> v)"
    by (rule map_add_upd_left)
  also have "\<dots> = m ++ (map_of md)(k \<mapsto> v)"
    by (simp only: map_add_upd)
  also have "\<dots> = m ++ map_of (e # md)"
    by (simp only: e map_of.simps fst_conv snd_conv)
  finally have "m(k \<mapsto> v) ++ map_of md = m ++ map_of (e # md)" .
  moreover have "foldl store_entry (m(k \<mapsto> v)) md = m(k \<mapsto> v) ++ map_of md"
    using Cons by simp
  ultimately show ?case by (simp only: foldl_Cons e store_entry_pair)
qed

lemma read_file_File: "lookup_node fs p = Some (File c t) \<Longrightarrow> read_file fs p = Inr c"
  by (simp add: read_file_def)

lemma loadMetadata_stored:
  assumes "lookup_node fs (p @ ''.metadata'') = Some (File (metadata_lines md) t)"
    and "distinct (map fst md)" and "\<forall>(k, v) \<in> set md. storable k v"
  shows "loadMetadata fs p = map_of md"
proof -
  from assms(3) have "\<forall>(k, v) \<in> set md. CHR 0x0A \<notin> set k \<and> CHR 0x0A \<notin> set v"
    by (auto simp: storable_def)
  then have "Split (metadata_lines md) nl = map (\<lambda>(k, v). k @ ''='' @ v) md @ [[]]"
    by (rule Split_metadata_lines)
  moreover have "foldl parse_metadata_line Map.empty (map (\<lambda>(k, v). k @ ''='' @ v) md @ [[]]) = map_of md"
    using foldl_parse_metadata_lines [OF assms(3)] foldl_store_entry [OF assms(2)] by simp
  ultimately show ?thesis
    using assms(1) by (simp add: loadMetadata_def read_file_def)
qed

lemma loadMetadata_no_file:
  "\<forall>c t. lookup_node fs (p @ ''.metadata'') \<noteq> Some (File c t) \<Longrightarrow> loadMetadata fs p = Map.empty"
  by (auto simp: loadMetadata_def read_file_def split: option.splits node.splits)


subsection \<open>PutObject, then GetObject\<close>

lemma not_reserved_metadata: "\<not> reserved (p @ ''.metadata'')"
  by (cases p) (auto simp: reserved_def)

lemma storeMetadata_dir:
  "lookup_node fs (p @ ''.metadata'') = Some Dir \<Longrightarrow> snd (storeMetadata fs now p md) = fs"
  by (auto simp: storeMetadata_def os_Create_def)


text \<open>Whatever happens to the side file, no other name changes.\<close>

lemma storeMetadata_frame:
  "q \<noteq> p @ ''.metadata'' \<Longrightarrow> lookup_node (snd (storeMetadata fs now p md)) q = lookup_node fs q"
proof (cases "os_Create fs (p @ ''.metadata'') now")
  case (Inl e)
  then show ?thesis by (simp add: storeMetadata_def)
next
  case (Inr fs1)
  assume "q \<noteq> p @ ''.metadata''"
  with os_Create_Inr(1) [OF Inr] Inr show ?thesis
    by (simp add: storeMetadata_def lookup_node_write_file_other lookup_node_update)
qed

lemma storeMetadata_written:
  assumes "lookup_node fs (filepath_Dir p) = Some Dir" and "md \<noteq> []"
    and "lookup_node fs (p @ ''.metadata'') \<noteq> Some Dir"
    and "lookup_node fs (p @ ''.metadata'') = None \<longrightarrow> \<not> name_too_long (p @ ''.metadata'')"
    and "\<not> has_nul p"
  shows "lookup_node (snd (storeMetadata fs now p md)) q =
           (if q = p @ ''.metadata'' then Some (File (metadata_lines md) now) else lookup_node fs q)"
proof -
  let ?m = "p @ ''.metadata''"
  have nr: "\<not> reserved ?m" by (rule not_reserved_metadata)
  then have ne: "?m \<noteq> []" by (simp add: reserved_def)
  have "\<not> has_nul ?m" using assms(5) by (simp add: has_nul_def)
  then have cr: "os_Create fs ?m now = Inr (AList.update ?m (File [] now) fs)"
    using assms(1,3,4) ne unfolding os_Create_def filepath_Dir_metadata
    by (auto split: option.splits node.splits)
  have "lookup_node (AList.update ?m (File [] now) fs) ?m = Some (File [] now)"
    using nr by (simp add: lookup_node_update)
  from lookup_node_write_file [OF nr this, of "metadata_lines md" now q]
  show ?thesis
    using assms(2) nr by (simp add: storeMetadata_def cr lookup_node_update)
qed

text \<open>
  C3 (amended). When \<open>PutObject\<close> succeeds, \<open>GetObject\<close> on the same bucket and key
  returns exactly the bytes written, of any length. The store does not look at the
  metadata prefix: when the metadata given is not empty, each key occurs once, every
  entry is \<open>storable\<close>, no directory stands at the name of the side file and that name
  is not too long for the file system (the path of the object followed by
  \<open>.metadata\<close> has fewer than 4096 bytes and no component of more than 255), the
  metadata returned is the whole of the metadata given. When the metadata given is empty
  no side file is written, and the metadata returned is empty when there was no side file
  before.
\<close>

theorem PutObject_GetObject_round_trip:
  assumes put: "PutObject st fs now bucket key data sz md = (Inr info, fs')"
  shows "\<exists>info'. GetObject st fs' bucket key = Inr (Object data info') \<and>
           Size info' = int (length data) \<and>
           (md \<noteq> [] \<and> distinct (map fst md) \<and> (\<forall>(k, v) \<in> set md. storable k v) \<and>
            lookup_node fs' (filepath_Join [basePath st, bucket, key] @ ''.metadata'') \<noteq> Some Dir \<and>
            \<not> name_too_long (filepath_Join [basePath st, bucket, key] @ ''.metadata'')
              \<longrightarrow> Metadata info' = map_of md) \<and>
           (md = [] \<and>
            (\<forall>c t. lookup_node fs (filepath_Join [basePath st, bucket, key] @ ''.metadata'')
                      \<noteq> Some (File c t))
              \<longrightarrow> Metadata info' = Map.empty)"
proof -
  define obj where "obj = filepath_Join [basePath st, bucket, key]"
  define bp where "bp = filepath_Join [basePath st, bucket]"
  let ?meta = "obj @ ''.metadata''"
  from put obtain fs1 fs2 where
    be: "lookup_node fs bp = Some Dir" and
    mk: "os_MkdirAll fs (filepath_Dir obj) = Inr fs1" and
    cr: "os_Create fs1 obj now = Inr fs2" and
    fs': "fs' = snd (storeMetadata (write_file fs2 obj data now) now obj md)"
    by (auto simp: PutObject_def BucketExists_def obj_def bp_def split: if_splits sum.splits)
  define fs3 where "fs3 = write_file fs2 obj data now"
  note c = os_Create_Inr [OF cr]
  have new: "only_new_dirs fs fs1" using mk by (rule os_MkdirAll_only_new_dirs)
  have l2: "lookup_node fs2 obj = Some (File [] now)"
    using c by (simp add: lookup_node_update)
  have l3: "lookup_node fs3 q = (if q = obj then Some (File data now) else lookup_node fs1 q)" for q
    using lookup_node_write_file [OF c(2) l2, of data now q] c(1,2)
    by (simp add: fs3_def lookup_node_update)
  have neq: "?meta \<noteq> obj" by simp
  have dir_ne: "filepath_Dir obj \<noteq> obj" using c(3,4) by auto
  have parent3: "lookup_node fs3 (filepath_Dir obj) = Some Dir"
    using c(4) dir_ne by (simp add: l3)
  have bp1: "lookup_node fs1 bp = Some Dir"
    using be new by (auto simp: only_new_dirs_def) (metis option.distinct(1))
  then have bp_obj: "bp \<noteq> obj" using c(3) by auto
  then have bp3: "lookup_node fs3 bp = Some Dir" using bp1 by (simp add: l3)
  have obj3: "lookup_node fs3 obj = Some (File data now)" by (simp add: l3)
  have final: "lookup_node fs' bp = Some Dir \<and> lookup_node fs' obj = Some (File data now) \<and>
      (md \<noteq> [] \<and> lookup_node fs' ?meta \<noteq> Some Dir \<and> \<not> name_too_long ?meta \<longrightarrow>
         lookup_node fs' ?meta = Some (File (metadata_lines md) now)) \<and>
      (md = [] \<longrightarrow> lookup_node fs' ?meta = lookup_node fs1 ?meta)"
  proof (cases "md = []")
    case True
    then have "fs' = fs3" by (simp add: fs' fs3_def storeMetadata_def)
    with True bp3 obj3 show ?thesis by (simp add: l3)
  next
    case False
    show ?thesis
    proof (cases "lookup_node fs3 ?meta = Some Dir")
      case True
      then have "fs' = fs3" unfolding fs' fs3_def [symmetric] by (rule storeMetadata_dir)
      with True False bp3 obj3 show ?thesis by simp
    next
      case nd: False
      have "bp \<noteq> ?meta" using nd bp3 by auto
      then have b: "lookup_node fs' bp = Some Dir"
        using bp3 by (simp add: fs' fs3_def [symmetric] storeMetadata_frame)
      have o: "lookup_node fs' obj = Some (File data now)"
        using obj3 neq by (simp add: fs' fs3_def [symmetric] storeMetadata_frame)
      have "lookup_node fs' ?meta = Some (File (metadata_lines md) now)"
        if "\<not> name_too_long ?meta"
        unfolding fs' fs3_def [symmetric]
        using storeMetadata_written [OF parent3 False nd _ c(6), of now ?meta] that by simp
      with False b o show ?thesis by auto
    qed
  qed
  let ?info = "\<lparr>Key = key, Size = int (length data), ETag = etag_of now, LastModified = now,
      ContentType = getContentType key, Metadata = loadMetadata fs' obj\<rparr>"
  have get: "GetObject st fs' bucket key = Inr (Object data ?info)"
    using final by (simp add: GetObject_def BucketExists_def obj_def [symmetric] bp_def [symmetric])
  have m1: "Metadata ?info = map_of md"
    if "md \<noteq> []" "distinct (map fst md)" "\<forall>(k, v) \<in> set md. storable k v"
       "lookup_node fs' ?meta \<noteq> Some Dir" "\<not> name_too_long ?meta"
  proof -
    from final that have "lookup_node fs' ?meta = Some (File (metadata_lines md) now)" by simp
    from loadMetadata_stored [OF this that(2,3)] show ?thesis by simp
  qed
  have m2: "Metadata ?info = Map.empty"
    if "md = []" "\<forall>c t. lookup_node fs ?meta \<noteq> Some (File c t)"
  proof -
    have "\<forall>c t. lookup_node fs1 ?meta \<noteq> Some (File c t)"
      using new that(2) by (auto simp: only_new_dirs_def) (metis node.distinct(1) option.inject)
    with final that(1) have "\<forall>c t. lookup_node fs' ?meta \<noteq> Some (File c t)" by simp
    from loadMetadata_no_file [OF this] show ?thesis by simp
  qed
  show ?thesis
    unfolding obj_def [symmetric]
    using get m1 m2 by (intro exI [of _ ?info]) auto
qed


text \<open>A store with the bucket \<open>b\<close> and nothing in it.\<close>

definition example_store :: FileSystemStorage where
  "example_store = \<lparr>basePath = ''./data''\<rparr>"

definition bucket_fs :: filesystem where
  "bucket_fs = [(''data'', Dir), (''data/b'', Dir)]"

text \<open>
  C3 as stated fails: an entry without the metadata prefix (the one the repository's own
  test passes) is stored and returned, so the metadata returned is not the metadata given
  restricted to the entries with the prefix.
\<close>

theorem PutObject_unprefixed_metadata_counterexample:
  "BucketExists example_store bucket_fs ''b'' \<and>
   (case GetObject example_store
           (snd (PutObject example_store bucket_fs 1 ''b'' ''k'' ''content'' 7
                   [(''Content-Type'', ''text/plain'')])) ''b'' ''k'' of
      Inr (Object c i) \<Rightarrow> Metadata i ''Content-Type''
    | _ \<Rightarrow> None) = Some ''text/plain'' \<and>
   map_of (filter (\<lambda>(k, v). has_metadata_prefix k) [(''Content-Type'', ''text/plain'')])
     ''Content-Type'' = None"
  by code_simp

theorem PutObject_GetObject_round_trip_witness:
  "\<exists>info'. GetObject example_store
              [(''data'', Dir), (''data/b'', Dir), (''data/b/k'', File ''content'' 1),
               (''data/b/k.metadata'', File (metadata_lines [(''x-amz-meta-color'', ''blue'')]) 1)]
              ''b'' ''k'' = Inr (Object ''content'' info') \<and>
            Size info' = 7 \<and> Metadata info' = map_of [(''x-amz-meta-color'', ''blue'')]"
proof -
  let ?md = "[(''x-amz-meta-color'', ''blue'')]"
  let ?put = "PutObject example_store bucket_fs 1 ''b'' ''k'' ''content'' 7 ?md"
  let ?fs = "[(''data'', Dir), (''data/b'', Dir), (''data/b/k'', File ''content'' 1),
              (''data/b/k.metadata'', File (metadata_lines ?md) 1)]"
  have s: "snd ?put = ?fs" by code_simp
  have "case fst ?put of Inl e \<Rightarrow> False | Inr i \<Rightarrow> True" by code_simp
  then obtain info where "fst ?put = Inr info" by (cases "fst ?put") auto
  with s have put: "?put = (Inr info, ?fs)" by (simp add: prod_eq_iff)
  have st: "\<forall>(k, v) \<in> set ?md. storable k v"
  proof -
    have "storable ''x-amz-meta-color'' ''blue''" by code_simp
    then show ?thesis by simp
  qed
  have nd: "lookup_node ?fs (filepath_Join [basePath example_store, ''b'', ''k''] @ ''.metadata'') \<noteq> Some Dir"
    by code_simp
  have nl: "\<not> name_too_long (filepath_Join [basePath example_store, ''b'', ''k''] @ ''.metadata'')"
    by code_simp
  from PutObject_GetObject_round_trip [OF put] st nd nl show ?thesis by auto
qed


subsection \<open>What PutObject changes\<close>

definition is_file :: "filesystem \<Rightarrow> string \<Rightarrow> bool" where
  "is_file fs p = (case lookup_node fs p of Some (File c t) \<Rightarrow> True | _ \<Rightarrow> False)"


definition succeeded :: "'e + 'a \<Rightarrow> bool" where
  "succeeded r = (case r of Inr x \<Rightarrow> True | Inl e \<Rightarrow> False)"










subsection \<open>CompleteMultipartUpload\<close>

text \<open>The bytes of a staged part (empty when the part file cannot be read).\<close>

definition staged_bytes :: "FileSystemStorage \<Rightarrow> filesystem \<Rightarrow> string \<Rightarrow> string \<Rightarrow> CompletePart \<Rightarrow> string" where
  "staged_bytes st fs bucket uploadID part =
     (case read_file fs (partPath st bucket uploadID (PartNumber part)) of Inr c \<Rightarrow> c | Inl e \<Rightarrow> [])"

lemma is_file_read_file: "is_file fs p \<Longrightarrow> \<exists>c. read_file fs p = Inr c"
  by (auto simp: is_file_def read_file_def split: option.splits node.splits)


lemma read_file_cong:
  "lookup_node fs p = lookup_node fs0 p \<Longrightarrow> is_file fs0 p \<Longrightarrow> read_file fs p = read_file fs0 p"
  by (auto simp: read_file_def is_file_def split: option.splits node.splits)

lemma copy_parts_staged:
  assumes "\<not> reserved obj"
  shows "lookup_node fs obj = Some (File c0 now) \<Longrightarrow>
     \<forall>q. q \<noteq> obj \<longrightarrow> lookup_node fs q = lookup_node fs0 q \<Longrightarrow>
     \<forall>p \<in> set parts. partPath st bucket uploadID (PartNumber p) \<noteq> obj \<and>
                      is_file fs0 (partPath st bucket uploadID (PartNumber p)) \<Longrightarrow>
     \<exists>fs'. copy_parts st fs now obj bucket uploadID parts tot =
             (Inr (tot + int (length (concat (map (staged_bytes st fs0 bucket uploadID) parts)))), fs') \<and>
           lookup_node fs' obj =
             Some (File (c0 @ concat (map (staged_bytes st fs0 bucket uploadID) parts)) now) \<and>
           (\<forall>q. q \<noteq> obj \<longrightarrow> lookup_node fs' q = lookup_node fs0 q)"
proof (induction parts arbitrary: fs c0 tot)
  case Nil
  then show ?case by simp
next
  case (Cons p parts)
  let ?pp = "partPath st bucket uploadID (PartNumber p)"
  from Cons.prems(3) have ne: "?pp \<noteq> obj" and f: "is_file fs0 ?pp" by auto
  from ne Cons.prems(2) f have "read_file fs ?pp = read_file fs0 ?pp"
    by (intro read_file_cong) simp_all
  moreover from is_file_read_file [OF f] obtain c where c: "read_file fs0 ?pp = Inr c" ..
  ultimately have r: "read_file fs ?pp = Inr c" by simp
  have sb: "staged_bytes st fs0 bucket uploadID p = c" by (simp add: staged_bytes_def c)
  let ?fs = "write_file fs obj c now"
  have 1: "lookup_node ?fs obj = Some (File (c0 @ c) now)"
    using lookup_node_write_file [OF assms Cons.prems(1), of c now obj] by simp
  have 2: "\<forall>q. q \<noteq> obj \<longrightarrow> lookup_node ?fs q = lookup_node fs0 q"
    using Cons.prems(2) by (simp add: lookup_node_write_file_other)
  have 3: "\<forall>p \<in> set parts. partPath st bucket uploadID (PartNumber p) \<noteq> obj \<and>
                      is_file fs0 (partPath st bucket uploadID (PartNumber p))"
    using Cons.prems(3) by simp
  from Cons.IH [OF 1 2 3, of "tot + int (length c)"] r ne sb show ?case
    by (simp add: add.assoc)
qed







text \<open>
  A path climbs when it leaves the working directory through \<open>..\<close>. A directory with
  a name of its own is not the working directory, not the root and no path that climbs
  (nor a name that ends in a dot, which \<open>os.RemoveAll\<close> refuses).
\<close>

definition climbs :: "string \<Rightarrow> bool" where
  "climbs p = (p = ''..'' \<or> prefix ''../'' p)"

definition named_dir :: "string \<Rightarrow> bool" where
  "named_dir d =
     (\<not> ends_with_dot d \<and> \<not> climbs d \<and> \<not> list_all (\<lambda>c. c = ''..'') (path_comps d))"

lemma map_of_filter_key:
  "map_of (filter (\<lambda>(q, n). P q) fs) p = (if P p then map_of fs p else None)"
  by (induction fs) auto

lemma path_comps_reserved: "path_comps [] = []" "path_comps ''/'' = []" "path_comps ''.'' = []"
  by (simp_all add: path_comps_def Split_def)

lemma lookup_node_RemoveAll:
  assumes "named_dir d"
  shows "lookup_node (os_RemoveAll fs d) q = (if contains_path d q then None else lookup_node fs q)"
proof -
  from assms have dots: "\<not> list_all (\<lambda>c. c = ''..'') (path_comps d)" and e: "\<not> ends_with_dot d"
    by (simp_all add: named_dir_def)
  from dots have ne: "path_comps d \<noteq> []" by auto
  then have d: "d \<noteq> []" by (auto simp: path_comps_reserved)
  have r: "\<not> contains_path d []" "\<not> contains_path d ''/''" "\<not> contains_path d ''.''"
    using dots ne by (simp_all add: contains_path_def path_comps_reserved)
  have "map_of (os_RemoveAll fs d) q = (if contains_path d q then None else map_of fs q)"
    using d e by (simp add: os_RemoveAll_def map_of_filter_key)
  then show ?thesis
    using r by (auto simp: lookup_node_def)
qed

lemma only_new_dirs_is_file: "only_new_dirs fs fs1 \<Longrightarrow> is_file fs1 p = is_file fs p"
proof -
  assume "only_new_dirs fs fs1"
  then have "lookup_node fs1 p = lookup_node fs p \<or>
      (lookup_node fs p = None \<and> lookup_node fs1 p = Some Dir)"
    by (simp add: only_new_dirs_def)
  then show ?thesis by (auto simp: is_file_def)
qed

lemma only_new_dirs_file:
  "only_new_dirs fs fs1 \<Longrightarrow> is_file fs p \<Longrightarrow> lookup_node fs1 p = lookup_node fs p"
proof -
  assume "only_new_dirs fs fs1" and f: "is_file fs p"
  then have "lookup_node fs1 p = lookup_node fs p \<or>
      (lookup_node fs p = None \<and> lookup_node fs1 p = Some Dir)"
    by (simp add: only_new_dirs_def)
  with f show ?thesis by (auto simp: is_file_def)
qed

lemma staged_bytes_only_new_dirs:
  assumes "only_new_dirs fs fs1" and "is_file fs (partPath st bucket uploadID (PartNumber p))"
  shows "staged_bytes st fs1 bucket uploadID p = staged_bytes st fs bucket uploadID p"
proof -
  from assms(2) obtain c t where
    "lookup_node fs (partPath st bucket uploadID (PartNumber p)) = Some (File c t)"
    by (auto simp: is_file_def split: option.splits node.splits)
  moreover from this only_new_dirs_file [OF assms] have
    "lookup_node fs1 (partPath st bucket uploadID (PartNumber p)) = Some (File c t)"
    by simp
  ultimately show ?thesis by (simp add: staged_bytes_def read_file_File)
qed


text \<open>
  C4 (amended). When every part of the list is staged, the destination is none of the
  part files and does not lie in the staging directory, the staging directory has a name
  of its own (\<open>named_dir\<close>: it is not the working directory, the root or a path that
  climbs with \<open>..\<close>), the path of the destination does not climb either, and
  \<open>CompleteMultipartUpload\<close> succeeds, then the object holds the bytes of the staged
  parts in the order of the list (the caller's order, a part listed twice is copied
  twice), the size reported is the sum of the sizes of the parts, and nothing is left at
  or below the staging directory. (The table holds a file under the name the code uses;
  for paths that do not climb, different cleaned names are different files, which is why
  the theorem is stated for them.)
\<close>

theorem CompleteMultipartUpload_concatenates:
  assumes ok: "CompleteMultipartUpload st fs now bucket key uploadID parts = (Inr info, fs')"
    and staged: "\<forall>p \<in> set parts. is_file fs (partPath st bucket uploadID (PartNumber p))"
    and other: "\<forall>p \<in> set parts. partPath st bucket uploadID (PartNumber p) \<noteq>
                  filepath_Join [basePath st, bucket, key]"
    and outside: "\<not> contains_path (filepath_Join [basePath st, bucket, ''.uploads'', uploadID])
                    (filepath_Join [basePath st, bucket, key])"
    and named: "named_dir (filepath_Join [basePath st, bucket, ''.uploads'', uploadID])"
    and plain: "\<not> climbs (filepath_Join [basePath st, bucket, key])"
  shows "lookup_node fs' (filepath_Join [basePath st, bucket, key]) =
           Some (File (concat (map (staged_bytes st fs bucket uploadID) parts)) now) \<and>
         Size info = (\<Sum>p\<leftarrow>parts. int (length (staged_bytes st fs bucket uploadID p))) \<and>
         (\<forall>q. contains_path (filepath_Join [basePath st, bucket, ''.uploads'', uploadID]) q \<longrightarrow>
              lookup_node fs' q = None)"
proof -
  define obj where "obj = filepath_Join [basePath st, bucket, key]"
  define dir where "dir = filepath_Join [basePath st, bucket, ''.uploads'', uploadID]"
  from ok obtain fs1 fs2 fs3 tot where
    mk: "os_MkdirAll fs (filepath_Dir obj) = Inr fs1" and
    cr: "os_Create fs1 obj now = Inr fs2" and
    cp: "copy_parts st fs2 now obj bucket uploadID parts 0 = (Inr tot, fs3)" and
    info: "Size info = tot" and
    fs': "fs' = os_RemoveAll fs3 dir"
    by (auto simp: CompleteMultipartUpload_def obj_def dir_def split: sum.splits prod.splits)
  note c = os_Create_Inr [OF cr]
  have new: "only_new_dirs fs fs1" using mk by (rule os_MkdirAll_only_new_dirs)
  have l2: "lookup_node fs2 obj = Some (File [] now)"
    using c by (simp add: lookup_node_update)
  have o2: "\<forall>q. q \<noteq> obj \<longrightarrow> lookup_node fs2 q = lookup_node fs1 q"
    using c by (simp add: lookup_node_update)
  have st1: "\<forall>p \<in> set parts. partPath st bucket uploadID (PartNumber p) \<noteq> obj \<and>
                      is_file fs1 (partPath st bucket uploadID (PartNumber p))"
    using staged other new by (simp add: only_new_dirs_is_file obj_def)
  have same: "staged_bytes st fs1 bucket uploadID p = staged_bytes st fs bucket uploadID p"
    if "p \<in> set parts" for p
    using staged that by (intro staged_bytes_only_new_dirs [OF new]) simp
  then have maps: "map (staged_bytes st fs1 bucket uploadID) parts = map (staged_bytes st fs bucket uploadID) parts"
    by simp
  from copy_parts_staged [OF c(2) l2 o2 st1, of 0] cp
  have tot: "tot = int (length (concat (map (staged_bytes st fs bucket uploadID) parts)))"
    and l3: "lookup_node fs3 obj = Some (File (concat (map (staged_bytes st fs bucket uploadID) parts)) now)"
    by (auto simp: maps)
  have "lookup_node fs' q = (if contains_path dir q then None else lookup_node fs3 q)" for q
    unfolding fs' using named by (intro lookup_node_RemoveAll) (simp add: dir_def)
  with l3 outside have "lookup_node fs' obj =
      Some (File (concat (map (staged_bytes st fs bucket uploadID) parts)) now)"
    and "\<forall>q. contains_path dir q \<longrightarrow> lookup_node fs' q = None"
    by (auto simp: obj_def dir_def)
  moreover have "tot = (\<Sum>p\<leftarrow>parts. int (length (staged_bytes st fs bucket uploadID p)))"
    unfolding tot by (induction parts) auto
  ultimately show ?thesis
    using info by (simp add: obj_def dir_def)
qed




text \<open>
  The session of the specification: parts 1 = "AAA" and 2 = "BBB" staged under the upload
  ID 17 (\<open>staged_fs_run\<close> runs \<open>InitiateMultipartUpload\<close> and \<open>UploadPart\<close> to get there).
\<close>

definition part :: "int \<Rightarrow> CompletePart" where
  "part n = \<lparr>PartNumber = n, CompleteETag = []\<rparr>"

definition staged_fs :: filesystem where
  "staged_fs =
     [(''data'', Dir), (''data/b'', Dir), (''data/b/.uploads'', Dir), (''data/b/.uploads/17'', Dir),
      (''data/b/.uploads/17/part-1'', File ''AAA'' 5), (''data/b/.uploads/17/part-2'', File ''BBB'' 6)]"

lemma staged_fs_run:
  "fst (InitiateMultipartUpload example_store bucket_fs 17 ''b'' ''big'' []) = Inr ''17'' \<and>
   snd (UploadPart example_store
          (snd (UploadPart example_store
                  (snd (InitiateMultipartUpload example_store bucket_fs 17 ''b'' ''big'' []))
                  5 ''b'' ''big'' ''17'' 1 ''AAA'' 3))
          6 ''b'' ''big'' ''17'' 2 ''BBB'' 3) = staged_fs"
  by code_simp

text \<open>
  C4 as stated fails: with the staged part 1 = "AAA" and the key \<open>.uploads/17/part-1\<close>
  the destination is the part file itself; it is truncated before it is read, the call
  succeeds with size 0, and the object is removed with the staging directory.
\<close>

theorem CompleteMultipartUpload_into_part_file_counterexample:
  "is_file staged_fs (partPath example_store ''b'' ''17'' (PartNumber (part 1))) \<and>
   staged_bytes example_store staged_fs ''b'' ''17'' (part 1) = ''AAA'' \<and>
   succeeded (fst (CompleteMultipartUpload example_store staged_fs 9 ''b'' ''.uploads/17/part-1'' ''17'' [part 1])) \<and>
   (case fst (CompleteMultipartUpload example_store staged_fs 9 ''b'' ''.uploads/17/part-1'' ''17'' [part 1]) of
      Inr i \<Rightarrow> Size i | Inl e \<Rightarrow> - 1) = 0 \<and>
   lookup_node (snd (CompleteMultipartUpload example_store staged_fs 9 ''b'' ''.uploads/17/part-1'' ''17'' [part 1]))
     (filepath_Join [basePath example_store, ''b'', ''.uploads/17/part-1'']) = None"
  by code_simp

theorem CompleteMultipartUpload_concatenates_witness:
  "lookup_node (snd (CompleteMultipartUpload example_store staged_fs 9 ''b'' ''big'' ''17'' [part 1, part 2]))
     ''data/b/big'' = Some (File ''AAABBB'' 9) \<and>
   lookup_node (snd (CompleteMultipartUpload example_store staged_fs 9 ''b'' ''big'' ''17'' [part 2, part 1]))
     ''data/b/big'' = Some (File ''BBBAAA'' 9) \<and>
   lookup_node (snd (CompleteMultipartUpload example_store staged_fs 9 ''b'' ''big'' ''17'' [part 2, part 1]))
     ''data/b/.uploads/17/part-1'' = None \<and>
   (\<exists>info. fst (CompleteMultipartUpload example_store staged_fs 9 ''b'' ''big'' ''17'' [part 2, part 1]) = Inr info
      \<and> Size info = 6)"
proof -
  let ?c12 = "CompleteMultipartUpload example_store staged_fs 9 ''b'' ''big'' ''17'' [part 1, part 2]"
  let ?c21 = "CompleteMultipartUpload example_store staged_fs 9 ''b'' ''big'' ''17'' [part 2, part 1]"
  have p: "filepath_Join [basePath example_store, ''b'', ''big''] = ''data/b/big''"
    "filepath_Join [basePath example_store, ''b'', ''.uploads'', ''17''] = ''data/b/.uploads/17''"
    by code_simp+
  have ok: "succeeded (fst ?c12)" "succeeded (fst ?c21)" by code_simp+
  then obtain i12 i21 where i: "fst ?c12 = Inr i12" "fst ?c21 = Inr i21"
    by (auto simp: succeeded_def split: sum.splits)
  then have r: "?c12 = (Inr i12, snd ?c12)" "?c21 = (Inr i21, snd ?c21)"
    by (simp_all add: prod_eq_iff)
  have st: "\<forall>p \<in> set [part 1, part 2]. is_file staged_fs (partPath example_store ''b'' ''17'' (PartNumber p))"
    "\<forall>p \<in> set [part 2, part 1]. is_file staged_fs (partPath example_store ''b'' ''17'' (PartNumber p))"
    by code_simp+
  have ot: "\<forall>p \<in> set [part 1, part 2]. partPath example_store ''b'' ''17'' (PartNumber p) \<noteq> ''data/b/big''"
    "\<forall>p \<in> set [part 2, part 1]. partPath example_store ''b'' ''17'' (PartNumber p) \<noteq> ''data/b/big''"
    by code_simp+
  have out: "\<not> contains_path ''data/b/.uploads/17'' ''data/b/big''" by code_simp
  have named: "named_dir ''data/b/.uploads/17''" by code_simp
  have plain: "\<not> climbs ''data/b/big''" by code_simp
  have b: "contains_path ''data/b/.uploads/17'' ''data/b/.uploads/17/part-1''" by code_simp
  have c: "concat (map (staged_bytes example_store staged_fs ''b'' ''17'') [part 1, part 2]) = ''AAABBB''"
    "concat (map (staged_bytes example_store staged_fs ''b'' ''17'') [part 2, part 1]) = ''BBBAAA''"
    "(\<Sum>p\<leftarrow>[part 2, part 1]. int (length (staged_bytes example_store staged_fs ''b'' ''17'' p))) = 6"
    by code_simp+
  note A = CompleteMultipartUpload_concatenates [OF r(1), unfolded p, OF st(1) ot(1) out named plain, unfolded c]
  note B = CompleteMultipartUpload_concatenates [OF r(2), unfolded p, OF st(2) ot(2) out named plain, unfolded c]
  from A B b i show ?thesis by auto
qed





subsection \<open>ListObjects\<close>

text \<open>The key of an entry of the walk, and the keys of all the regular files of a bucket in the order of the walk.\<close>

definition entry_key :: "string \<Rightarrow> string \<times> string \<times> int \<Rightarrow> string" where
  "entry_key bucketPath e = backslash_to_slash (filepath_Rel bucketPath (fst e))"

definition walked_keys :: "FileSystemStorage \<Rightarrow> filesystem \<Rightarrow> string \<Rightarrow> string list" where
  "walked_keys st fs bucket =
     map (entry_key (filepath_Join [basePath st, bucket]))
         (walk_files fs (filepath_Join [basePath st, bucket]))"

text \<open>
  The words of the specification: a key survives when it is no metadata side file, starts
  with the prefix (when there is one) and is above the marker (when there is one); a
  surviving key is rolled up when the delimiter is not empty and occurs in what follows the
  prefix; its common prefix is the prefix and what follows it up to the end of the first
  occurrence of the delimiter.
\<close>

definition survives :: "string \<Rightarrow> string \<Rightarrow> string \<Rightarrow> bool" where
  "survives pfx marker key =
     (\<not> HasSuffix key ''.metadata'' \<and> (pfx = [] \<or> HasPrefix key pfx) \<and> (marker = [] \<or> \<not> key \<le> marker))"

definition rolled_up :: "string \<Rightarrow> string \<Rightarrow> string \<Rightarrow> bool" where
  "rolled_up pfx delimiter key = (delimiter \<noteq> [] \<and> find_sub (TrimPrefix key pfx) delimiter \<noteq> None)"

definition common_prefix :: "string \<Rightarrow> string \<Rightarrow> string \<Rightarrow> string" where
  "common_prefix pfx delimiter key =
     (case find_sub (TrimPrefix key pfx) delimiter of
        None \<Rightarrow> []
      | Some i \<Rightarrow> pfx @ take (i + length delimiter) (TrimPrefix key pfx))"

lemma visit_cases:
  "visit fs bp pfx delimiter marker (objects, cps, pm) (path, c, t) =
     (if \<not> survives pfx marker (entry_key bp (path, c, t)) then (objects, cps, pm)
      else if rolled_up pfx delimiter (entry_key bp (path, c, t))
      then (if pm (common_prefix pfx delimiter (entry_key bp (path, c, t))) then (objects, cps, pm)
            else (objects, cps @ [common_prefix pfx delimiter (entry_key bp (path, c, t))],
                  pm (common_prefix pfx delimiter (entry_key bp (path, c, t)) := True)))
      else (objects @ [\<lparr>Key = entry_key bp (path, c, t), Size = int (length c), ETag = etag_of t,
                         LastModified = t, ContentType = getContentType (entry_key bp (path, c, t)),
                         Metadata = loadMetadata fs path\<rparr>], cps, pm))"
  by (auto simp: visit_def Let_def survives_def rolled_up_def common_prefix_def Index_def entry_key_def
      split: option.splits)

lemma foldl_visit:
  assumes "pm = (\<lambda>c. c \<in> set cps)" and "distinct cps"
  shows "map Key (fst (foldl (visit fs bp pfx delimiter marker) (objects, cps, pm) entries)) = map Key objects @
           filter (\<lambda>k. survives pfx marker k \<and> \<not> rolled_up pfx delimiter k) (map (entry_key bp) entries) \<and>
         distinct (fst (snd (foldl (visit fs bp pfx delimiter marker) (objects, cps, pm) entries))) \<and>
         set (fst (snd (foldl (visit fs bp pfx delimiter marker) (objects, cps, pm) entries))) = set cps \<union> common_prefix pfx delimiter `
           {k \<in> set (map (entry_key bp) entries). survives pfx marker k \<and> rolled_up pfx delimiter k} \<and>
         snd (snd (foldl (visit fs bp pfx delimiter marker) (objects, cps, pm) entries)) = (\<lambda>c. c \<in> set (fst (snd (foldl (visit fs bp pfx delimiter marker) (objects, cps, pm) entries))))"
  using assms
proof (induction entries arbitrary: objects cps pm)
  case Nil
  then show ?case by simp
next
  case (Cons e entries)
  obtain p c t where e: "e = (p, c, t)" by (cases e)
  define k where "k = entry_key bp e"
  define cp where "cp = common_prefix pfx delimiter k"
  consider (skip) "\<not> survives pfx marker k"
    | (seen) "survives pfx marker k" "rolled_up pfx delimiter k" "cp \<in> set cps"
    | (new) "survives pfx marker k" "rolled_up pfx delimiter k" "cp \<notin> set cps"
    | (obj) "survives pfx marker k" "\<not> rolled_up pfx delimiter k"
    by blast
  then show ?case
  proof cases
    case skip
    then have v: "visit fs bp pfx delimiter marker (objects, cps, pm) e = (objects, cps, pm)"
      by (simp add: e visit_cases k_def)
    from Cons.IH [OF Cons.prems, of objects] skip show ?thesis
      unfolding foldl_Cons v by (auto simp: k_def)
  next
    case seen
    then have v: "visit fs bp pfx delimiter marker (objects, cps, pm) e = (objects, cps, pm)"
      using Cons.prems(1) by (simp add: e visit_cases k_def cp_def)
    from Cons.IH [OF Cons.prems, of objects] seen show ?thesis
      unfolding foldl_Cons v by (auto simp: k_def cp_def)
  next
    case new
    define pm' where "pm' = pm (cp := True)"
    from new have v: "visit fs bp pfx delimiter marker (objects, cps, pm) e =
        (objects, cps @ [cp], pm')"
      using Cons.prems(1) by (simp add: e visit_cases k_def cp_def pm'_def)
    have 1: "pm' = (\<lambda>c. c \<in> set (cps @ [cp]))"
      using Cons.prems(1) by (auto simp: fun_eq_iff pm'_def)
    have 2: "distinct (cps @ [cp])" using Cons.prems(2) new by simp
    from Cons.IH [OF 1 2, of objects] new show ?thesis
      unfolding foldl_Cons v by (auto simp: k_def cp_def)
  next
    case obj
    let ?i = "\<lparr>Key = k, Size = int (length c), ETag = etag_of t, LastModified = t,
               ContentType = getContentType k, Metadata = loadMetadata fs p\<rparr>"
    from obj have v: "visit fs bp pfx delimiter marker (objects, cps, pm) e = (objects @ [?i], cps, pm)"
      by (simp add: e visit_cases k_def)
    from Cons.IH [OF Cons.prems, of "objects @ [?i]"] obj show ?thesis
      unfolding foldl_Cons v by (auto simp: k_def)
  qed
qed

lemma walk_bucket_listing:
  "map Key (fst (walk_bucket st fs bucket pfx delimiter marker)) =
     filter (\<lambda>k. survives pfx marker k \<and> \<not> rolled_up pfx delimiter k) (walked_keys st fs bucket) \<and>
   distinct (fst (snd (walk_bucket st fs bucket pfx delimiter marker))) \<and>
   set (fst (snd (walk_bucket st fs bucket pfx delimiter marker))) =
     common_prefix pfx delimiter `
       {k \<in> set (walked_keys st fs bucket). survives pfx marker k \<and> rolled_up pfx delimiter k}"
  using foldl_visit [of "\<lambda>c. False" "[]" fs "filepath_Join [basePath st, bucket]" pfx delimiter marker "[]"
      "walk_files fs (filepath_Join [basePath st, bucket])"]
  by (simp add: walk_bucket_def walked_keys_def)

text \<open>
  C5. For an existing bucket (\<open>ListObjects\<close> returns a result): the common prefixes
  are, each once, the common prefixes of the surviving keys that are rolled up; the objects
  listed are, in the order of the walk, the surviving keys that are not rolled up (with an
  empty delimiter no key is), cut to the first \<open>maxKeys\<close> of them when \<open>maxKeys\<close> is
  positive and there are more. The two listings of the specification are in
  \<open>ListObjects_rolls_up_witness\<close>.
\<close>

theorem ListObjects_rolls_up:
  assumes "ListObjects st fs bucket pfx delimiter marker maxKeys = Inr r"
  shows "distinct (CommonPrefixes r) \<and>
         set (CommonPrefixes r) = common_prefix pfx delimiter `
           {k \<in> set (walked_keys st fs bucket). survives pfx marker k \<and> rolled_up pfx delimiter k} \<and>
         map Key (Objects r) =
           (if 0 < maxKeys \<and>
               maxKeys < int (length (filter (\<lambda>k. survives pfx marker k \<and> \<not> rolled_up pfx delimiter k)
                                             (walked_keys st fs bucket)))
            then take (nat maxKeys) (filter (\<lambda>k. survives pfx marker k \<and> \<not> rolled_up pfx delimiter k)
                                            (walked_keys st fs bucket))
            else filter (\<lambda>k. survives pfx marker k \<and> \<not> rolled_up pfx delimiter k)
                        (walked_keys st fs bucket))"
proof -
  obtain objects cps pm where w: "walk_bucket st fs bucket pfx delimiter marker = (objects, cps, pm)"
    by (cases "walk_bucket st fs bucket pfx delimiter marker")
  from walk_bucket_listing [of st fs bucket pfx delimiter marker, unfolded w]
  have k: "map Key objects = filter (\<lambda>k. survives pfx marker k \<and> \<not> rolled_up pfx delimiter k)
                                (walked_keys st fs bucket)"
    and d: "distinct cps"
    and s: "set cps = common_prefix pfx delimiter `
         {k \<in> set (walked_keys st fs bucket). survives pfx marker k \<and> rolled_up pfx delimiter k}"
    by auto
  have len: "length objects = length (filter (\<lambda>k. survives pfx marker k \<and> \<not> rolled_up pfx delimiter k)
                                (walked_keys st fs bucket))"
    using k by (metis length_map)
  from assms w have r: "r = (if maxKeys > 0 \<and> int (length objects) > maxKeys
          then \<lparr>Objects = take (nat maxKeys) objects, CommonPrefixes = cps,
                    IsTruncated = True, NextMarker = Key (objects ! nat (maxKeys - 1))\<rparr>
          else \<lparr>Objects = objects, CommonPrefixes = cps,
                    IsTruncated = False, NextMarker = []\<rparr>)"
    by (auto simp: ListObjects_def split: if_splits)
  show ?thesis
    using d s k len by (auto simp: r take_map [symmetric] simp del: take_map)
qed

lemma last_take: "0 < n \<Longrightarrow> n \<le> length xs \<Longrightarrow> last (take n xs) = xs ! (n - 1)"
  by (cases n) (simp_all add: take_Suc_conv_app_nth)

text \<open>
  C6. For a positive \<open>maxKeys\<close>: the object entries that survive the filters are the
  keys of the walk that survive and are not rolled up, in the order of the walk. When
  there are more than \<open>maxKeys\<close> of them the result holds exactly the first \<open>maxKeys\<close>,
  is truncated, and its next marker is the key of the last object returned (the key at
  position \<open>maxKeys\<close> among the survivors); otherwise all are returned, the result is
  not truncated and the next marker is empty.
\<close>

theorem ListObjects_truncates:
  assumes "ListObjects st fs bucket pfx delimiter marker maxKeys = Inr r" and "0 < maxKeys"
  shows "(maxKeys < int (length (filter (\<lambda>k. survives pfx marker k \<and> \<not> rolled_up pfx delimiter k)
                                         (walked_keys st fs bucket))) \<longrightarrow>
            map Key (Objects r) =
              take (nat maxKeys) (filter (\<lambda>k. survives pfx marker k \<and> \<not> rolled_up pfx delimiter k)
                                         (walked_keys st fs bucket)) \<and>
            int (length (Objects r)) = maxKeys \<and> IsTruncated r \<and>
            NextMarker r = Key (last (Objects r)) \<and>
            NextMarker r = filter (\<lambda>k. survives pfx marker k \<and> \<not> rolled_up pfx delimiter k)
                                  (walked_keys st fs bucket) ! (nat maxKeys - 1)) \<and>
         (int (length (filter (\<lambda>k. survives pfx marker k \<and> \<not> rolled_up pfx delimiter k)
                              (walked_keys st fs bucket))) \<le> maxKeys \<longrightarrow>
            map Key (Objects r) = filter (\<lambda>k. survives pfx marker k \<and> \<not> rolled_up pfx delimiter k)
                                         (walked_keys st fs bucket) \<and>
            \<not> IsTruncated r \<and> NextMarker r = [])"
proof -
  define keys where
    "keys = filter (\<lambda>k. survives pfx marker k \<and> \<not> rolled_up pfx delimiter k) (walked_keys st fs bucket)"
  obtain objects cps pm where w: "walk_bucket st fs bucket pfx delimiter marker = (objects, cps, pm)"
    by (cases "walk_bucket st fs bucket pfx delimiter marker")
  from walk_bucket_listing [of st fs bucket pfx delimiter marker, unfolded w]
  have k: "map Key objects = keys" by (simp add: keys_def)
  then have len: "length objects = length keys" by (metis length_map)
  from assms w have r: "r = (if int (length objects) > maxKeys
          then \<lparr>Objects = take (nat maxKeys) objects, CommonPrefixes = cps,
                    IsTruncated = True, NextMarker = Key (objects ! nat (maxKeys - 1))\<rparr>
          else \<lparr>Objects = objects, CommonPrefixes = cps,
                    IsTruncated = False, NextMarker = []\<rparr>)"
    by (auto simp: ListObjects_def split: if_splits)
  have more: "map Key (Objects r) = take (nat maxKeys) keys \<and> int (length (Objects r)) = maxKeys \<and>
      IsTruncated r \<and> NextMarker r = Key (last (Objects r)) \<and> NextMarker r = keys ! (nat maxKeys - 1)"
    if "maxKeys < int (length keys)"
  proof -
    from that assms(2) len have n: "0 < nat maxKeys" "nat maxKeys \<le> length objects"
      "nat maxKeys - 1 < length objects" by auto
    have i: "nat (maxKeys - 1) = nat maxKeys - 1" using assms(2) by simp
    from n(1,2) have "last (take (nat maxKeys) objects) = objects ! (nat maxKeys - 1)"
      by (rule last_take)
    moreover have "Key (objects ! (nat maxKeys - 1)) = keys ! (nat maxKeys - 1)"
      using n(3) k by (metis nth_map)
    moreover have "map Key (take (nat maxKeys) objects) = take (nat maxKeys) keys"
      unfolding k [symmetric] by (rule take_map [symmetric])
    ultimately show ?thesis
      using that len n by (simp add: r i del: take_map)
  qed
  have fewer: "map Key (Objects r) = keys \<and> \<not> IsTruncated r \<and> NextMarker r = []"
    if "int (length keys) \<le> maxKeys"
    using that len k by (simp add: r)
  from more fewer show ?thesis unfolding keys_def by blast
qed


text \<open>The buckets of the specification's examples, their entries in no particular order.\<close>

definition listing_fs :: filesystem where
  "listing_fs =
     [(''data'', Dir), (''data/b'', Dir), (''data/b/top'', File ''3'' 3), (''data/b/a'', Dir),
      (''data/b/a/y'', File ''2'' 2), (''data/b/a/x'', File ''1'' 1)]"

definition prefix_fs :: filesystem where
  "prefix_fs =
     [(''data'', Dir), (''data/b'', Dir), (''data/b/b'', Dir), (''data/b/b/z'', File ''3'' 3),
      (''data/b/a'', Dir), (''data/b/a/y'', File ''2'' 2), (''data/b/a/x'', File ''1'' 1)]"

lemma distinct_set_singleton: "distinct xs \<Longrightarrow> set xs = {a} \<Longrightarrow> xs = [a]"
proof (cases xs)
  case Nil
  assume "set xs = {a}"
  with Nil show ?thesis by simp
next
  case (Cons x ys)
  assume d: "distinct xs" and s: "set xs = {a}"
  from s Cons have x: "x = a" and sub: "set ys \<subseteq> {a}" by auto
  from d Cons x have "a \<notin> set ys" by simp
  with sub have "ys = []" by (cases ys) auto
  with Cons x show ?thesis by simp
qed

lemma ListObjects_Inr: "BucketExists st fs bucket \<Longrightarrow> \<exists>r. ListObjects st fs bucket pfx delimiter marker maxKeys = Inr r"
  by (simp add: ListObjects_def split: prod.splits)

theorem ListObjects_rolls_up_witness:
  "(\<exists>r. ListObjects example_store listing_fs ''b'' [] ''/'' [] 1000 = Inr r \<and>
        map Key (Objects r) = [''top''] \<and> CommonPrefixes r = [''a/'']) \<and>
   (\<exists>r. ListObjects example_store prefix_fs ''b'' ''a/'' [] [] 1000 = Inr r \<and>
        map Key (Objects r) = [''a/x'', ''a/y''] \<and> CommonPrefixes r = [])"
proof -
  have b: "BucketExists example_store listing_fs ''b''" "BucketExists example_store prefix_fs ''b''"
    by code_simp+
  have w: "walked_keys example_store listing_fs ''b'' = [''a/x'', ''a/y'', ''top'']"
    "walked_keys example_store prefix_fs ''b'' = [''a/x'', ''a/y'', ''b/z'']"
    by code_simp+
  have f: "filter (\<lambda>k. survives [] [] k \<and> \<not> rolled_up [] ''/'' k) [''a/x'', ''a/y'', ''top''] = [''top'']"
    "filter (\<lambda>k. survives ''a/'' [] k \<and> \<not> rolled_up ''a/'' [] k) [''a/x'', ''a/y'', ''b/z''] = [''a/x'', ''a/y'']"
    by code_simp+
  have c: "map (common_prefix [] ''/'') (filter (\<lambda>k. survives [] [] k \<and> rolled_up [] ''/'' k) [''a/x'', ''a/y'', ''top''])
             = [''a/'', ''a/'']"
    "map (common_prefix ''a/'' []) (filter (\<lambda>k. survives ''a/'' [] k \<and> rolled_up ''a/'' [] k) [''a/x'', ''a/y'', ''b/z''])
             = []"
    by code_simp+
  have img: "common_prefix p d ` {k \<in> set ks. survives p m k \<and> rolled_up p d k} =
      set (map (common_prefix p d) (filter (\<lambda>k. survives p m k \<and> rolled_up p d k) ks))" for p d m ks
    by auto
  from ListObjects_Inr [OF b(1)] obtain r1 where
    r1: "ListObjects example_store listing_fs ''b'' [] ''/'' [] 1000 = Inr r1" by blast
  from ListObjects_Inr [OF b(2)] obtain r2 where
    r2: "ListObjects example_store prefix_fs ''b'' ''a/'' [] [] 1000 = Inr r2" by blast
  note A = ListObjects_rolls_up [OF r1, unfolded w img f c]
  note B = ListObjects_rolls_up [OF r2, unfolded w img f c]
  from A have "map Key (Objects r1) = [''top'']" "CommonPrefixes r1 = [''a/'']"
    by (auto intro: distinct_set_singleton)
  moreover from B have "map Key (Objects r2) = [''a/x'', ''a/y'']" "CommonPrefixes r2 = []"
    by auto
  ultimately show ?thesis using r1 r2 by simp
qed

theorem ListObjects_truncates_witness:
  "(\<exists>r. ListObjects example_store listing_fs ''b'' [] [] [] 1 = Inr r \<and>
        map Key (Objects r) = [''a/x''] \<and> IsTruncated r \<and> NextMarker r = ''a/x'') \<and>
   (\<exists>r. ListObjects example_store listing_fs ''b'' [] [] [] 3 = Inr r \<and>
        map Key (Objects r) = [''a/x'', ''a/y'', ''top''] \<and> \<not> IsTruncated r \<and> NextMarker r = [])"
proof -
  have b: "BucketExists example_store listing_fs ''b''" by code_simp
  have k: "filter (\<lambda>k. survives [] [] k \<and> \<not> rolled_up [] [] k) (walked_keys example_store listing_fs ''b'') =
           [''a/x'', ''a/y'', ''top'']"
    by code_simp
  from ListObjects_Inr [OF b] obtain r1 where
    r1: "ListObjects example_store listing_fs ''b'' [] [] [] 1 = Inr r1" by blast
  from ListObjects_Inr [OF b] obtain r3 where
    r3: "ListObjects example_store listing_fs ''b'' [] [] [] 3 = Inr r3" by blast
  have n: "(1 :: int) < int (length [''a/x'', ''a/y'', ''top''])"
    "int (length [''a/x'', ''a/y'', ''top'']) \<le> 3" "(0 :: int) < 1" "(0 :: int) < 3"
    by simp_all
  from ListObjects_truncates [OF r1 n(3), unfolded k] n(1)
  have "map Key (Objects r1) = take (nat 1) [''a/x'', ''a/y'', ''top'']" "IsTruncated r1"
    "NextMarker r1 = [''a/x'', ''a/y'', ''top''] ! (nat 1 - 1)"
    by blast+
  then have 1: "map Key (Objects r1) = [''a/x'']" "IsTruncated r1" "NextMarker r1 = ''a/x''"
    by simp_all
  from ListObjects_truncates [OF r3 n(4), unfolded k] n(2)
  have 3: "map Key (Objects r3) = [''a/x'', ''a/y'', ''top'']" "\<not> IsTruncated r3" "NextMarker r3 = []"
    by blast+
  from r1 1 r3 3 show ?thesis by simp
qed

section \<open>A request signed by a client\<close>

subsection \<open>The signature as section 4.1 of the specification describes it\<close>

text \<open>
  The definitions named \<open>client_\<close> follow the words of the specification, with the
  standard hash functions \<open>sha256\<close> and \<open>hmac_sha256\<close>, and are compared below with
  the functions of the source.

  Percent-encoding (RFC 3986, as the signing protocol uses it): letters, digits and
  \<open>- _ . ~\<close> stay, every other byte, the space among them, becomes \<open>%XX\<close>.
\<close>

definition percent_encode_byte :: "char \<Rightarrow> string" where
  "percent_encode_byte c =
     (if query_unreserved c then [c]
      else [CHR ''%'', upper_hex_digit ((of_char c :: nat) div 16), upper_hex_digit ((of_char c :: nat) mod 16)])"

definition percent_encode :: "string \<Rightarrow> string" where
  "percent_encode s = concat (map percent_encode_byte s)"

text \<open>
  Canonical query string: all the query parameters (each key with each of its values, in
  the order they were met), sorted by key with a stable sort, each key and value
  percent-encoded, joined as \<open>k=v\<close> pairs with \<open>&\<close>.
\<close>

definition query_parameters :: "(string \<times> string list) list \<Rightarrow> (string \<times> string) list" where
  "query_parameters vals = concat (map (\<lambda>(k, vs). map (Pair k) vs) vals)"

definition client_canonical_query :: "(string \<times> string list) list \<Rightarrow> string" where
  "client_canonical_query vals =
     Join (map (\<lambda>(k, v). percent_encode k @ ''='' @ percent_encode v)
               (sort_key fst (query_parameters vals)))
          ''&''"

text \<open>
  Canonical headers: one line \<open>name:value\<close> followed by a newline for every name of
  the signed-header list, the name in lower case, the value trimmed and its runs of
  white space collapsed, the lines sorted by name.
\<close>

definition client_header_lines :: "Request \<Rightarrow> string list \<Rightarrow> (string \<times> string) list" where
  "client_header_lines r names =
     map (\<lambda>name. (ToLower name, ReplaceAllSpaces (TrimSpace (Header_Get (Header r) name)))) names"

definition client_canonical_headers :: "Request \<Rightarrow> string \<Rightarrow> string" where
  "client_canonical_headers r signedHeaders =
     concat (map (\<lambda>(name, v). name @ '':'' @ v @ nl)
                 (sort_key fst (client_header_lines r (Split signedHeaders '';''))))"

text \<open>
  The canonical request, the string to sign (its four parts on four lines), the chain of
  four keyed hashes that derives the signing key, and the signature in hexadecimal.
\<close>

definition client_canonical_request :: "Request \<Rightarrow> string \<Rightarrow> string" where
  "client_canonical_request r signedHeaders =
     Method r @ nl @
     (if URLPath r = [] then ''/'' else URLPath r) @ nl @
     client_canonical_query (URLQuery r) @ nl @
     client_canonical_headers r signedHeaders @ nl @
     signedHeaders @ nl @
     (if Header_Get (Header r) ''X-Amz-Content-Sha256'' = [] then ''UNSIGNED-PAYLOAD''
      else Header_Get (Header r) ''X-Amz-Content-Sha256'')"

definition client_string_to_sign :: "Request \<Rightarrow> string \<Rightarrow> string \<Rightarrow> string \<Rightarrow> string \<Rightarrow> string" where
  "client_string_to_sign r date rgn service signedHeaders =
     ''AWS4-HMAC-SHA256'' @ nl @
     requestDateTime r @ nl @
     (date @ ''/'' @ rgn @ ''/'' @ service @ ''/aws4_request'') @ nl @
     hex_encode (sha256 (client_canonical_request r signedHeaders))"

definition client_signing_key :: "string \<Rightarrow> string \<Rightarrow> string \<Rightarrow> string \<Rightarrow> string" where
  "client_signing_key secret date rgn service =
     hmac_sha256 (hmac_sha256 (hmac_sha256 (hmac_sha256 (''AWS4'' @ secret) date) rgn) service)
       ''aws4_request''"

definition client_signature :: "string \<Rightarrow> Request \<Rightarrow> string \<Rightarrow> string \<Rightarrow> string \<Rightarrow> string \<Rightarrow> string" where
  "client_signature secret r date rgn service signedHeaders =
     hex_encode (hmac_sha256 (client_signing_key secret date rgn service)
                             (client_string_to_sign r date rgn service signedHeaders))"

text \<open>
  The Authorization header the client sends: the scheme, then the credential descriptor,
  the signed-header list and the signature as \<open>key=value\<close> fields separated by a
  comma and a space.
\<close>

definition credential_of :: "string \<Rightarrow> string \<Rightarrow> string \<Rightarrow> string \<Rightarrow> string" where
  "credential_of ak date rgn service =
     ak @ ''/'' @ date @ ''/'' @ rgn @ ''/'' @ service @ ''/aws4_request''"

definition authorization_header :: "string \<Rightarrow> string \<Rightarrow> string \<Rightarrow> string" where
  "authorization_header credential signedHeaders signature =
     ''AWS4-HMAC-SHA256 Credential='' @ credential @ '', SignedHeaders='' @ signedHeaders @
     '', Signature='' @ signature"

subsection \<open>Reading the header back\<close>

text \<open>Whether a string contains the separator of the fields, a comma then a space.\<close>

fun has_comma_space :: "string \<Rightarrow> bool" where
  "has_comma_space (a # b # r) = (a = CHR '','' \<and> b = CHR '' '' \<or> has_comma_space (b # r))"
| "has_comma_space [a] = False"
| "has_comma_space [] = False"

lemma has_comma_space_append:
  "has_comma_space (x @ y) =
     (has_comma_space x \<or> has_comma_space y \<or>
      (x \<noteq> [] \<and> y \<noteq> [] \<and> last x = CHR '','' \<and> hd y = CHR '' ''))"
proof (induction x rule: has_comma_space.induct)
  case (1 a b r)
  then show ?case by auto
next
  case (2 a)
  then show ?case by (cases y) auto
next
  case 3
  then show ?case by simp
qed

lemma has_comma_space_Cons: "a \<noteq> CHR '','' \<Longrightarrow> has_comma_space (a # x) = has_comma_space x"
  by (cases x) auto

lemma no_comma_no_comma_space: "CHR '','' \<notin> set x \<Longrightarrow> \<not> has_comma_space x"
  by (induction x rule: has_comma_space.induct) auto

lemma split_from_comma_space:
  "\<not> has_comma_space x \<Longrightarrow>
   split_from '', '' cur (x @ '', '' @ rest) = (cur @ x) # split_from '', '' [] rest"
proof (induction x arbitrary: cur rule: has_comma_space.induct)
  case (1 a b r)
  then show ?case by auto
next
  case (2 a)
  then show ?case by auto
next
  case 3
  then show ?case by simp
qed

lemma split_from_no_comma_space:
  "\<not> has_comma_space x \<Longrightarrow> split_from '', '' cur x = [cur @ x]"
proof (induction x arbitrary: cur rule: has_comma_space.induct)
  case (1 a b r)
  then show ?case by auto
next
  case (2 a)
  then show ?case by auto
next
  case 3
  then show ?case by simp
qed

lemma split_from_slash:
  "CHR ''/'' \<notin> set x \<Longrightarrow>
   split_from ''/'' cur (x @ CHR ''/'' # rest) = (cur @ x) # split_from ''/'' [] rest"
  by (induction x arbitrary: cur) auto

lemma split_from_no_slash: "CHR ''/'' \<notin> set x \<Longrightarrow> split_from ''/'' cur x = [cur @ x]"
  by (induction x arbitrary: cur) auto

lemma Split_credential_of:
  assumes "CHR ''/'' \<notin> set ak" "CHR ''/'' \<notin> set date" "CHR ''/'' \<notin> set rgn"
    "CHR ''/'' \<notin> set service"
  shows "Split (credential_of ak date rgn service) ''/'' = [ak, date, rgn, service, ''aws4_request'']"
  using assms by (simp add: Split_def credential_of_def split_from_slash split_from_no_slash)

lemma hexdigit_in: "n < 16 \<Longrightarrow> hexdigit n \<in> set ''0123456789abcdef''"
  unfolding hexdigit_def by (rule nth_mem) simp

lemma set_hex_encode: "set (hex_encode s) \<subseteq> set ''0123456789abcdef''"
proof -
  have "(of_char c :: nat) < 256" for c :: char
    by simp
  then have "(of_char c :: nat) div 16 < 16" for c :: char
    by (simp add: less_mult_imp_div_less)
  then have "hexdigit ((of_char c :: nat) div 16) \<in> set ''0123456789abcdef''" for c
    by (rule hexdigit_in)
  moreover have "hexdigit ((of_char c :: nat) mod 16) \<in> set ''0123456789abcdef''" for c
    by (rule hexdigit_in) simp
  ultimately show ?thesis unfolding hex_encode_def by auto
qed

lemma hex_encode_no_comma_space: "\<not> has_comma_space (hex_encode s)"
proof (rule no_comma_no_comma_space)
  show "CHR '','' \<notin> set (hex_encode s)" using set_hex_encode [of s] by auto
qed

lemma parse_pairs_authorization_header:
  assumes "\<not> has_comma_space credential" "\<not> has_comma_space signedHeaders"
    "\<not> has_comma_space signature"
  shows "parse_pairs (authorization_header credential signedHeaders signature) =
           [''Credential'' \<mapsto> credential, ''SignedHeaders'' \<mapsto> signedHeaders,
            ''Signature'' \<mapsto> signature]"
proof -
  have pre: "TrimPrefix (authorization_header credential signedHeaders signature) ''AWS4-HMAC-SHA256 '' =
      (''Credential='' @ credential) @ '', '' @ (''SignedHeaders='' @ signedHeaders) @ '', '' @
      (''Signature='' @ signature)"
    by (simp add: TrimPrefix_def authorization_header_def)
  have a: "\<not> has_comma_space (''Credential='' @ credential)"
    using assms(1) by (simp add: has_comma_space_Cons)
  have b: "\<not> has_comma_space (''SignedHeaders='' @ signedHeaders)"
    using assms(2) by (simp add: has_comma_space_Cons)
  have c: "\<not> has_comma_space (''Signature='' @ signature)"
    using assms(3) by (simp add: has_comma_space_Cons)
  have sp: "Split (TrimPrefix (authorization_header credential signedHeaders signature)
                ''AWS4-HMAC-SHA256 '') '', '' =
      [''Credential='' @ credential, ''SignedHeaders='' @ signedHeaders, ''Signature='' @ signature]"
    unfolding pre Split_def
    by (simp only: split_from_comma_space [OF a] split_from_comma_space [OF b]
        split_from_no_comma_space [OF c] append_Nil)
  have k1: "SplitN2 (''Credential='' @ credential) ''='' = [''Credential'', credential]"
    using SplitN2_equals [of "''Credential''" credential] by simp
  have k2: "SplitN2 (''SignedHeaders='' @ signedHeaders) ''='' = [''SignedHeaders'', signedHeaders]"
    using SplitN2_equals [of "''SignedHeaders''" signedHeaders] by simp
  have k3: "SplitN2 (''Signature='' @ signature) ''='' = [''Signature'', signature]"
    using SplitN2_equals [of "''Signature''" signature] by simp
  show ?thesis
    unfolding parse_pairs_def sp by (simp only: foldl.simps k1 k2 k3 list.case)
qed


subsection \<open>The canonical request of the source is the one of the specification\<close>

lemma map_insort_key: "map f (insort_key f x xs) = insort (f x) (map f xs)"
  by (induction xs) auto

lemma map_sort_key: "map f (sort_key f xs) = sort (map f xs)"
  by (induction xs) (auto simp: map_insort_key)

lemma query_parameters_Cons:
  "query_parameters ((k, vs) # xs) = map (Pair k) vs @ query_parameters xs"
  by (simp add: query_parameters_def)

lemma query_parameters_Nil: "query_parameters [] = []"
  by (simp add: query_parameters_def)

lemma mset_query_parameters_insort:
  "mset (query_parameters (insort_key fst x xs)) = mset (query_parameters (x # xs))"
proof (induction xs)
  case Nil
  then show ?case by simp
next
  case (Cons y ys)
  obtain k vs where x: "x = (k, vs)" by (cases x)
  obtain k' vs' where y: "y = (k', vs')" by (cases y)
  from Cons show ?case by (simp add: x y query_parameters_Cons)
qed

lemma mset_query_parameters_sort:
  "mset (query_parameters (sort_key fst xs)) = mset (query_parameters xs)"
proof (induction xs)
  case Nil
  then show ?case by simp
next
  case (Cons x xs)
  obtain k vs where x: "x = (k, vs)" by (cases x)
  from Cons show ?case
    by (simp add: mset_query_parameters_insort) (simp add: x query_parameters_Cons)
qed

lemma filter_query_parameters:
  "filter (\<lambda>p. fst p = k) (query_parameters xs) = query_parameters (filter (\<lambda>p. fst p = k) xs)"
proof (induction xs)
  case Nil
  then show ?case by (simp add: query_parameters_Nil)
next
  case (Cons x xs)
  obtain k' vs where x: "x = (k', vs)" by (cases x)
  have "filter (\<lambda>p. fst p = k) (map (Pair k') vs) = (if k' = k then map (Pair k') vs else [])"
    by (induction vs) auto
  with Cons show ?case by (simp add: x query_parameters_Cons query_parameters_Nil)
qed

lemma set_query_parameters: "fst ` set (query_parameters xs) \<subseteq> fst ` set xs"
proof (induction xs)
  case Nil
  then show ?case by (simp add: query_parameters_Nil)
next
  case (Cons x xs)
  obtain k vs where x: "x = (k, vs)" by (cases x)
  from Cons show ?case by (auto simp: x query_parameters_Cons)
qed

lemma sorted_query_parameters:
  "sorted (map fst xs) \<Longrightarrow> sorted (map fst (query_parameters xs))"
proof (induction xs)
  case Nil
  then show ?case by (simp add: query_parameters_Nil)
next
  case (Cons x xs)
  obtain k vs where x: "x = (k, vs)" by (cases x)
  have rep: "map (fst \<circ> Pair k) vs = replicate (length vs) k"
    by (induction vs) auto
  have le: "k \<le> b" if "b \<in> fst ` set (query_parameters xs)" for b
  proof -
    from that set_query_parameters [of xs] have "b \<in> fst ` set xs" by blast
    with Cons.prems show ?thesis by (auto simp: x)
  qed
  have "sorted (map fst (query_parameters xs))" using Cons by simp
  with le show ?case
    by (simp add: x query_parameters_Cons sorted_append rep)
qed

lemma sort_query_parameters:
  "sort_key fst (query_parameters vals) = query_parameters (sort_key fst vals)"
proof (rule properties_for_sort_key)
  show "mset (query_parameters (sort_key fst vals)) = mset (query_parameters vals)"
    by (rule mset_query_parameters_sort)
next
  fix k
  have "filter (\<lambda>p. fst p = fst k) (query_parameters (sort_key fst vals)) =
        filter (\<lambda>p. fst p = fst k) (query_parameters vals)"
    by (simp only: filter_query_parameters sort_key_stable)
  then show "filter (\<lambda>x. fst k = fst x) (query_parameters (sort_key fst vals)) =
        filter (\<lambda>x. fst k = fst x) (query_parameters vals)"
    by (simp only: eq_commute [of "fst k"])
next
  show "sorted (map fst (query_parameters (sort_key fst vals)))"
    by (rule sorted_query_parameters) (rule sorted_sort_key)
qed

lemma map_query_parameters:
  "map (\<lambda>(k, v). f k v) (query_parameters xs) = concat (map (\<lambda>(k, vs). map (f k) vs) xs)"
proof (induction xs)
  case Nil
  then show ?case by (simp add: query_parameters_Nil)
next
  case (Cons x xs)
  obtain k vs where x: "x = (k, vs)" by (cases x)
  from Cons show ?case by (simp add: x query_parameters_Cons)
qed

text \<open>
  \<open>url.QueryEscape\<close> writes a space as \<open>+\<close>; on keys and values without a space it
  is the percent-encoding.
\<close>

definition unspaced :: "(string \<times> string list) list \<Rightarrow> bool" where
  "unspaced vals = (\<forall>(k, vs) \<in> set vals. CHR 0x20 \<notin> set k \<and> (\<forall>v \<in> set vs. CHR 0x20 \<notin> set v))"

lemma QueryEscape_percent_encode: "CHR 0x20 \<notin> set s \<Longrightarrow> QueryEscape s = percent_encode s"
  by (induction s) (auto simp: QueryEscape_def percent_encode_def escape_byte_def percent_encode_byte_def)

lemma createCanonicalQueryString_client:
  assumes "distinct (map fst vals)" and "unspaced vals"
  shows "createCanonicalQueryString vals = client_canonical_query vals"
proof (cases "vals = []")
  case True
  then show ?thesis
    by (simp add: createCanonicalQueryString_def client_canonical_query_def query_parameters_Nil)
next
  case False
  let ?enc = "\<lambda>k v. QueryEscape k @ ''='' @ QueryEscape v"
  let ?penc = "\<lambda>k v. percent_encode k @ ''='' @ percent_encode v"
  have enc: "map (?enc (fst p)) (snd p) = map (?penc (fst p)) (snd p)"
    if "p \<in> set (sort_key fst vals)" for p
  proof -
    from that have "(fst p, snd p) \<in> set vals" by simp
    with assms(2) have "CHR 0x20 \<notin> set (fst p)" "\<forall>v \<in> set (snd p). CHR 0x20 \<notin> set v"
      by (auto simp: unspaced_def)
    then show ?thesis by (simp add: QueryEscape_percent_encode)
  qed
  have look: "(case map_of vals (fst p) of None \<Rightarrow> [] | Some vs \<Rightarrow> vs) = snd p"
    if "p \<in> set (sort_key fst vals)" for p
  proof -
    from that have "(fst p, snd p) \<in> set vals" by simp
    with assms(1) have "map_of vals (fst p) = Some (snd p)" by (rule map_of_is_SomeI)
    then show ?thesis by simp
  qed
  have "concat (map (\<lambda>key. map (?enc key) (case map_of vals key of None \<Rightarrow> [] | Some vs \<Rightarrow> vs))
                    (sort (map fst vals))) =
        concat (map (\<lambda>p. map (?enc (fst p)) (case map_of vals (fst p) of None \<Rightarrow> [] | Some vs \<Rightarrow> vs))
                    (sort_key fst vals))"
    by (simp only: map_sort_key [symmetric] map_map comp_def)
  also have "\<dots> = concat (map (\<lambda>p. map (?enc (fst p)) (snd p)) (sort_key fst vals))"
    using look by (auto intro!: arg_cong [where f = concat] map_cong)
  also have "\<dots> = concat (map (\<lambda>p. map (?penc (fst p)) (snd p)) (sort_key fst vals))"
    using enc by (intro arg_cong [where f = concat] map_cong) simp_all
  also have "\<dots> = concat (map (\<lambda>(k, vs). map (?penc k) vs) (sort_key fst vals))"
    by (simp only: case_prod_unfold)
  also have "\<dots> = map (\<lambda>(k, v). ?penc k v) (query_parameters (sort_key fst vals))"
    by (rule map_query_parameters [symmetric])
  finally show ?thesis
    using False
    by (simp only: createCanonicalQueryString_def client_canonical_query_def
        sort_query_parameters if_False)
qed

lemma update_fresh: "k \<notin> fst ` set al \<Longrightarrow> AList.update k v al = al @ [(k, v)]"
  by (induction al) auto

lemma foldl_canonical_header_map:
  assumes "\<forall>n \<in> set names. Header_Get (Header r) n \<noteq> []"
    and "distinct (map fst acc @ map ToLower names)"
  shows "foldl (\<lambda>headers name.
              if Header_Get (Header r) name \<noteq> []
              then AList.update (ToLower name)
                     (ReplaceAllSpaces (TrimSpace (Header_Get (Header r) name))) headers
              else headers) acc names = acc @ client_header_lines r names"
  using assms
proof (induction names arbitrary: acc)
  case Nil
  then show ?case by (simp add: client_header_lines_def)
next
  case (Cons n names)
  let ?e = "(ToLower n, ReplaceAllSpaces (TrimSpace (Header_Get (Header r) n)))"
  have fresh: "ToLower n \<notin> fst ` set acc" using Cons.prems(2) by auto
  have d: "distinct (map fst (acc @ [?e]) @ map ToLower names)"
    using Cons.prems(2) by auto
  have h: "\<forall>n \<in> set names. Header_Get (Header r) n \<noteq> []" using Cons.prems(1) by simp
  have n: "Header_Get (Header r) n \<noteq> []" using Cons.prems(1) by simp
  show ?case
    using Cons.IH [OF h d] n by (simp add: update_fresh [OF fresh] client_header_lines_def)
qed

lemma canonical_header_map_client:
  assumes "\<forall>n \<in> set names. Header_Get (Header r) n \<noteq> []" and "distinct (map ToLower names)"
  shows "canonical_header_map r names = client_header_lines r names"
  unfolding canonical_header_map_def
  using foldl_canonical_header_map [where acc = "[]", OF assms(1)] assms(2) by simp

lemma Join_lines: "xs \<noteq> [] \<Longrightarrow> Join xs sep @ sep = concat (map (\<lambda>x. x @ sep) xs)"
  by (induction xs sep rule: Join.induct) auto

lemma split_from_not_Nil: "split_from sep cur s \<noteq> []"
  by (induction sep cur s rule: split_from.induct) auto

lemma createCanonicalHeaders_client:
  assumes "\<forall>n \<in> set (Split signedHeaders '';''). Header_Get (Header r) n \<noteq> []"
    and "distinct (map ToLower (Split signedHeaders '';''))"
  shows "createCanonicalHeaders r (Split signedHeaders '';'') =
         client_canonical_headers r signedHeaders"
proof -
  let ?hm = "client_header_lines r (Split signedHeaders '';'')"
  have fst_hm: "map fst ?hm = map ToLower (Split signedHeaders '';'')"
    by (simp add: client_header_lines_def comp_def)
  have dist: "distinct (map fst ?hm)" using assms(2) by (simp only: fst_hm)
  have "length (sort_key fst ?hm) = length (split_from '';'' [] signedHeaders)"
    by (simp add: client_header_lines_def Split_def)
  with split_from_not_Nil [of "'';''" "[]" signedHeaders] have ne: "sort_key fst ?hm \<noteq> []"
    by (metis length_0_conv)
  have look: "map_get (map_of ?hm) (fst p) = snd p" if "p \<in> set (sort_key fst ?hm)" for p
  proof -
    from that have "(fst p, snd p) \<in> set ?hm" by simp
    with dist have "map_of ?hm (fst p) = Some (snd p)" by (rule map_of_is_SomeI)
    then show ?thesis by (simp add: map_get_def)
  qed
  have "map (\<lambda>key. key @ '':'' @ map_get (map_of ?hm) key) (sort (map fst ?hm)) =
        map (\<lambda>p. fst p @ '':'' @ map_get (map_of ?hm) (fst p)) (sort_key fst ?hm)"
    by (simp only: map_sort_key [symmetric] map_map comp_def)
  also have "\<dots> = map (\<lambda>p. fst p @ '':'' @ snd p) (sort_key fst ?hm)"
    using look by (auto intro!: map_cong)
  finally have lines: "map (\<lambda>key. key @ '':'' @ map_get (map_of ?hm) key) (sort (map fst ?hm)) =
        map (\<lambda>p. fst p @ '':'' @ snd p) (sort_key fst ?hm)" .
  have "createCanonicalHeaders r (Split signedHeaders '';'') =
        Join (map (\<lambda>p. fst p @ '':'' @ snd p) (sort_key fst ?hm)) nl @ nl"
    by (simp only: createCanonicalHeaders_def canonical_header_map_client [OF assms] lines)
  also have "\<dots> = concat (map (\<lambda>x. x @ nl) (map (\<lambda>p. fst p @ '':'' @ snd p) (sort_key fst ?hm)))"
    using ne by (intro Join_lines) simp
  also have "\<dots> = client_canonical_headers r signedHeaders"
    by (simp add: client_canonical_headers_def comp_def case_prod_unfold)
  finally show ?thesis .
qed

lemma createCanonicalRequest_client:
  assumes "\<forall>n \<in> set (Split signedHeaders '';''). Header_Get (Header r) n \<noteq> []"
    and "distinct (map ToLower (Split signedHeaders '';''))"
    and "distinct (map fst (URLQuery r))" and "unspaced (URLQuery r)"
  shows "createCanonicalRequest r signedHeaders = client_canonical_request r signedHeaders"
  by (simp only: createCanonicalRequest_def client_canonical_request_def
      createCanonicalHeaders_client [OF assms(1,2)] createCanonicalQueryString_client [OF assms(3,4)])


subsection \<open>The requests the verifier accepts\<close>

text \<open>The request with the Authorization header of the client added.\<close>

definition sign_request :: "AWSV4Auth \<Rightarrow> string \<Rightarrow> string \<Rightarrow> string \<Rightarrow> string \<Rightarrow> Request \<Rightarrow> Request" where
  "sign_request a date rgn service signedHeaders r =
     r\<lparr>Header := (Header r)(''Authorization'' \<mapsto>
          [authorization_header (credential_of (accessKey a) date rgn service) signedHeaders
             (client_signature (secretKey a) r date rgn service signedHeaders)])\<rparr>"

text \<open>
  The constants that \<open>hmacSHA256\<close> and \<open>sha256Hex\<close> return for the key
  \<open>test-key\<close> and the data \<open>test-data\<close> are never met here: a key of the chain
  starts with \<open>AWS4\<close> or is a digest of 32 bytes, and the canonical request contains
  a newline.
\<close>

lemma hmacSHA256_tagged_key: "hmacSHA256 (''AWS4'' @ secret) d = hmac_sha256 (''AWS4'' @ secret) d"
  by (simp add: hmacSHA256_def)

lemma hmacSHA256_digest_key: "length key = 32 \<Longrightarrow> hmacSHA256 key d = hmac_sha256 key d"
  by (auto simp: hmacSHA256_def)

lemma getSigningKey_client:
  "getSigningKey a date rgn service = client_signing_key (secretKey a) date rgn service"
  unfolding getSigningKey_def client_signing_key_def
  by (simp only: hmacSHA256_tagged_key hmacSHA256_digest_key [OF length_hmac_sha256])

lemma sha256Hex_with_newline: "CHR 0x0A \<in> set d \<Longrightarrow> sha256Hex d = hex_encode (sha256 d)"
  by (auto simp: sha256Hex_def)

lemma stringToSign_client:
  assumes "\<forall>n \<in> set (Split signedHeaders '';''). Header_Get (Header r) n \<noteq> []"
    and "distinct (map ToLower (Split signedHeaders '';''))"
    and "distinct (map fst (URLQuery r))" and "unspaced (URLQuery r)"
  shows "stringToSign r date rgn service signedHeaders =
         client_string_to_sign r date rgn service signedHeaders"
proof -
  have "CHR 0x0A \<in> set (client_canonical_request r signedHeaders)"
    by (simp add: client_canonical_request_def nl_def)
  then show ?thesis
    by (simp only: stringToSign_def client_string_to_sign_def
        createCanonicalRequest_client [OF assms] sha256Hex_with_newline)
qed

lemma calculateSignature_client:
  assumes "CHR ''/'' \<notin> set ak" "CHR ''/'' \<notin> set date" "CHR ''/'' \<notin> set rgn"
    "CHR ''/'' \<notin> set service"
    and "\<forall>n \<in> set (Split signedHeaders '';''). Header_Get (Header r) n \<noteq> []"
    and "distinct (map ToLower (Split signedHeaders '';''))"
    and "distinct (map fst (URLQuery r))" and "unspaced (URLQuery r)"
  shows "calculateSignature a r (credential_of ak date rgn service) signedHeaders =
         Inr (client_signature (secretKey a) r date rgn service signedHeaders)"
  by (simp add: calculateSignature_def Split_credential_of [OF assms(1-4)]
      stringToSign_client [OF assms(5-8)] getSigningKey_client client_signature_def
      hmacSHA256_digest_key client_signing_key_def length_hmac_sha256)

lemma credential_of_no_comma_space:
  assumes "\<not> has_comma_space ak" "\<not> has_comma_space date" "\<not> has_comma_space rgn"
    "\<not> has_comma_space service"
  shows "\<not> has_comma_space (credential_of ak date rgn service)"
  using assms by (simp add: credential_of_def has_comma_space_append has_comma_space_Cons)

lemma Authenticate_signed:
  assumes header: "Header_Get (Header r) ''Authorization'' =
        authorization_header (credential_of (accessKey a) date rgn service) signedHeaders
          (client_signature (secretKey a) r date rgn service signedHeaders)"
    and slash: "CHR ''/'' \<notin> set (accessKey a)" "CHR ''/'' \<notin> set date" "CHR ''/'' \<notin> set rgn"
      "CHR ''/'' \<notin> set service"
    and comma: "\<not> has_comma_space (accessKey a)" "\<not> has_comma_space date"
      "\<not> has_comma_space rgn" "\<not> has_comma_space service" "\<not> has_comma_space signedHeaders"
    and signed: "\<forall>n \<in> set (Split signedHeaders '';''). Header_Get (Header r) n \<noteq> []"
      "distinct (map ToLower (Split signedHeaders '';''))"
    and query: "distinct (map fst (URLQuery r))" "unspaced (URLQuery r)"
  shows "Authenticate a r = Inr ()"
proof -
  let ?cred = "credential_of (accessKey a) date rgn service"
  let ?sig = "client_signature (secretKey a) r date rgn service signedHeaders"
  let ?h = "Header_Get (Header r) ''Authorization''"
  have "\<not> has_comma_space ?sig"
    by (simp add: client_signature_def hex_encode_no_comma_space)
  with credential_of_no_comma_space [OF comma(1-4)] comma(5)
  have parts: "parse_pairs ?h =
      [''Credential'' \<mapsto> ?cred, ''SignedHeaders'' \<mapsto> signedHeaders, ''Signature'' \<mapsto> ?sig]"
    unfolding header by (rule parse_pairs_authorization_header)
  have c: "map_get (parse_pairs ?h) ''Credential'' = ?cred"
    and s: "map_get (parse_pairs ?h) ''SignedHeaders'' = signedHeaders"
    and g: "map_get (parse_pairs ?h) ''Signature'' = ?sig"
    by (simp_all add: parts map_get_def)
  have ne: "?h \<noteq> []" and pre: "HasPrefix ?h ''AWS4-HMAC-SHA256''"
    by (simp_all add: header authorization_header_def HasPrefix_def)
  have cne: "?cred \<noteq> []" by (simp add: credential_of_def)
  note sp = Split_credential_of [OF slash]
  note calc = calculateSignature_client [OF slash signed query, of a]
  show ?thesis
    unfolding Authenticate_def parseAuthHeader_def
    by (simp add: ne pre c s g cne sp calc del: Header_Get_def)
qed

lemma client_signature_cong:
  assumes "Method r = Method r'" "URLPath r = URLPath r'" "URLQuery r = URLQuery r'"
    and "\<forall>n \<in> set ([''X-Amz-Date'', ''Date'', ''X-Amz-Content-Sha256''] @ Split signedHeaders '';'').
           Header_Get (Header r) n = Header_Get (Header r') n"
  shows "client_signature secret r date rgn service signedHeaders =
         client_signature secret r' date rgn service signedHeaders"
proof -
  have "client_header_lines r (Split signedHeaders '';'') =
        client_header_lines r' (Split signedHeaders '';'')"
    using assms(4) by (simp add: client_header_lines_def)
  then have "client_canonical_request r signedHeaders = client_canonical_request r' signedHeaders"
    using assms by (simp add: client_canonical_request_def client_canonical_headers_def)
  moreover have "requestDateTime r = requestDateTime r'"
    using assms(4) by (simp add: requestDateTime_def)
  ultimately show ?thesis
    by (simp add: client_signature_def client_string_to_sign_def)
qed

lemma canonical_timestamp_headers:
  "CanonicalMIMEHeaderKey ''X-Amz-Date'' \<noteq> ''Authorization''"
  "CanonicalMIMEHeaderKey ''Date'' \<noteq> ''Authorization''"
  "CanonicalMIMEHeaderKey ''X-Amz-Content-Sha256'' \<noteq> ''Authorization''"
  by code_simp+

lemma Header_Get_sign_request:
  "CanonicalMIMEHeaderKey n \<noteq> ''Authorization'' \<Longrightarrow>
   Header_Get (Header (sign_request a date rgn service signedHeaders r)) n = Header_Get (Header r) n"
  by (simp add: sign_request_def Header_Get_def)

text \<open>
  What the verifier does accept. Let the client sign a request as section 4.1 describes,
  for the configured access key and secret key, a date, a region and a service, and add
  the Authorization header. \<open>Authenticate\<close> returns no error, provided that: the access
  key, the date, the region and the service contain no slash and no comma followed by a
  space; the signed-header list contains no comma followed by a space; every name of the
  signed-header list is made of ASCII bytes, is a header in the header map of the request
  with a non-empty value and is not the Authorization header itself; the names of the list
  are distinct in lower case; the parsed query has one entry per key (as a Go map has) and
  no space in a key or a value.
\<close>

lemma Authenticate_signed_request:
  assumes "\<forall>f \<in> {accessKey a, date, rgn, service}. CHR ''/'' \<notin> set f \<and> \<not> has_comma_space f"
    and "\<not> has_comma_space signedHeaders"
    and "\<forall>n \<in> set (Split signedHeaders '';'').
           Header_Get (Header r) n \<noteq> [] \<and> CanonicalMIMEHeaderKey n \<noteq> ''Authorization'' \<and>
           (\<forall>c \<in> set n. (of_char c :: nat) < 128)"
    and "distinct (map ToLower (Split signedHeaders '';''))"
    and "distinct (map fst (URLQuery r))" and "unspaced (URLQuery r)"
  shows "Authenticate a (sign_request a date rgn service signedHeaders r) = Inr ()"
proof -
  let ?r = "sign_request a date rgn service signedHeaders r"
  have same: "\<forall>n \<in> set ([''X-Amz-Date'', ''Date'', ''X-Amz-Content-Sha256''] @
                  Split signedHeaders '';''). Header_Get (Header ?r) n = Header_Get (Header r) n"
    using assms(3) by (auto simp: Header_Get_sign_request canonical_timestamp_headers)
  have fields: "Method ?r = Method r" "URLPath ?r = URLPath r" "URLQuery ?r = URLQuery r"
    by (simp_all add: sign_request_def)
  have sig: "client_signature (secretKey a) ?r date rgn service signedHeaders =
             client_signature (secretKey a) r date rgn service signedHeaders"
    using fields same by (rule client_signature_cong)
  have header: "Header_Get (Header ?r) ''Authorization'' =
        authorization_header (credential_of (accessKey a) date rgn service) signedHeaders
          (client_signature (secretKey a) ?r date rgn service signedHeaders)"
    unfolding sig by (simp add: sign_request_def Header_Get_def canonical_Authorization)
  have signed: "\<forall>n \<in> set (Split signedHeaders '';''). Header_Get (Header ?r) n \<noteq> []"
    using assms(3) by (simp add: Header_Get_sign_request)
  have query: "distinct (map fst (URLQuery ?r))" "unspaced (URLQuery ?r)"
    using assms(5,6) by (simp_all add: fields)
  from assms(1) have
    "CHR ''/'' \<notin> set (accessKey a)" "CHR ''/'' \<notin> set date" "CHR ''/'' \<notin> set rgn"
    "CHR ''/'' \<notin> set service"
    "\<not> has_comma_space (accessKey a)" "\<not> has_comma_space date"
    "\<not> has_comma_space rgn" "\<not> has_comma_space service"
    by simp_all
  from header this assms(2) signed assms(4) query show ?thesis
    by (rule Authenticate_signed)
qed

subsection \<open>A request signed by a standard client, as the server receives it\<close>

text \<open>
  A client of the signing protocol signs the \<open>host\<close> header. The request on the wire
  has a \<open>Host\<close> header; the server of net/http moves it to the field \<open>Host\<close> of the
  request and deletes it from the header map before the handler is called, so the
  verifier, which reads the header map only, finds no value for \<open>host\<close>.
\<close>

definition received :: "Request \<Rightarrow> Request" where
  "received r = r\<lparr>Header := (Header r)(''Host'' := None)\<rparr>"

definition wire_request :: Request where
  "wire_request =
     \<lparr>Method = ''GET'', URLPath = ''/'', URLQuery = [],
      Header = [''Host'' \<mapsto> [''localhost:3000''], ''X-Amz-Date'' \<mapsto> [''20130524T000000Z'']]\<rparr>"

definition example_signed_headers :: string where
  "example_signed_headers = ''host;x-amz-date''"

text \<open>The four keys of the chain for the secret key of \<open>example_auth\<close>.\<close>

definition kDate :: string where
  "kDate =
     [CHR 0x67, CHR 0x8F, CHR 0x28, CHR 0x67, CHR 0xE3, CHR 0xDE, CHR 0x35, CHR 0xC7,
      CHR 0xAA, CHR 0xF4, CHR 0x2E, CHR 0x51, CHR 0x48, CHR 0xB5, CHR 0x29, CHR 0x42,
      CHR 0x2C, CHR 0xE6, CHR 0x7B, CHR 0x1F, CHR 0x11, CHR 0xFE, CHR 0x22, CHR 0xFE,
      CHR 0xB2, CHR 0x63, CHR 0x96, CHR 0xAA, CHR 0x2F, CHR 0xF2, CHR 0x49, CHR 0x30]"

definition kRegion :: string where
  "kRegion =
     [CHR 0xE4, CHR 0x95, CHR 0xC5, CHR 0x2C, CHR 0x4B, CHR 0x7D, CHR 0x31, CHR 0xC6,
      CHR 0x92, CHR 0xCB, CHR 0x48, CHR 0xF8, CHR 0x49, CHR 0xD6, CHR 0x62, CHR 0x25,
      CHR 0x7A, CHR 0x3B, CHR 0x79, CHR 0xF7, CHR 0x89, CHR 0x27, CHR 0x88, CHR 0xA5,
      CHR 0xBF, CHR 0x94, CHR 0x5A, CHR 0xB7, CHR 0x67, CHR 0x7D, CHR 0xC8, CHR 0xAE]"

definition kService :: string where
  "kService =
     [CHR 0x3D, CHR 0x11, CHR 0x38, CHR 0x70, CHR 0x68, CHR 0xA6, CHR 0x9A, CHR 0x59,
      CHR 0xDE, CHR 0xDC, CHR 0xFE, CHR 0xBF, CHR 0xA7, CHR 0xE3, CHR 0x28, CHR 0xB3,
      CHR 0x4A, CHR 0xD0, CHR 0xB8, CHR 0xFC, CHR 0x58, CHR 0x4E, CHR 0x4C, CHR 0x4A,
      CHR 0xED, CHR 0x30, CHR 0x1B, CHR 0x6E, CHR 0x0F, CHR 0xC8, CHR 0x7A, CHR 0x62]"

definition kSigning :: string where
  "kSigning =
     [CHR 0x4F, CHR 0x97, CHR 0x31, CHR 0x16, CHR 0x96, CHR 0xED, CHR 0x07, CHR 0xBF,
      CHR 0xA7, CHR 0x02, CHR 0x0C, CHR 0x70, CHR 0xFD, CHR 0x16, CHR 0x1D, CHR 0xDB,
      CHR 0x0A, CHR 0x54, CHR 0x61, CHR 0x61, CHR 0xA1, CHR 0x9A, CHR 0x17, CHR 0x47,
      CHR 0x61, CHR 0x33, CHR 0x7C, CHR 0xC6, CHR 0x47, CHR 0xA2, CHR 0xC1, CHR 0x70]"

lemma hmac_kDate: "hmac_sha256 (''AWS4'' @ ''wJalrXUtnFEMI'') ''20130524'' = kDate"
  by code_simp

lemma hmac_kRegion: "hmac_sha256 kDate ''us-east-1'' = kRegion"
  by code_simp

lemma hmac_kService: "hmac_sha256 kRegion ''s3'' = kService"
  by code_simp

lemma hmac_kSigning: "hmac_sha256 kService ''aws4_request'' = kSigning"
  by code_simp

lemma example_signing_key:
  "client_signing_key (secretKey example_auth) ''20130524'' ''us-east-1'' ''s3'' = kSigning"
  unfolding client_signing_key_def example_auth_def AWSV4Auth.simps
  by (simp only: hmac_kDate hmac_kRegion hmac_kService hmac_kSigning)

lemma length_kSigning: "length kSigning = 32"
  by (simp add: kSigning_def)

text \<open>What the client signs, and what the verifier builds from the request it receives.\<close>

definition signed_canonical_request :: string where
  "signed_canonical_request =
     ''GET'' @ nl @ ''/'' @ nl @ nl @ ''host:localhost:3000'' @ nl @
     ''x-amz-date:20130524T000000Z'' @ nl @ nl @ ''host;x-amz-date'' @ nl @ ''UNSIGNED-PAYLOAD''"

definition verified_canonical_request :: string where
  "verified_canonical_request =
     ''GET'' @ nl @ ''/'' @ nl @ nl @
     ''x-amz-date:20130524T000000Z'' @ nl @ nl @ ''host;x-amz-date'' @ nl @ ''UNSIGNED-PAYLOAD''"

definition example_scope :: string where
  "example_scope = ''20130524/us-east-1/s3/aws4_request''"

lemma client_canonical_request_wire:
  "client_canonical_request wire_request example_signed_headers = signed_canonical_request"
  by code_simp

lemma createCanonicalRequest_received:
  "createCanonicalRequest (received wire_request) example_signed_headers = verified_canonical_request"
  by code_simp

lemma requestDateTime_wire:
  "requestDateTime wire_request = ''20130524T000000Z''"
  "requestDateTime (received wire_request) = ''20130524T000000Z''"
  by code_simp+

lemma sha256_signed_canonical_request:
  "hex_encode (sha256 signed_canonical_request) =
     ''353c016cc29a5634f0c32f54d49f1eedfffd05a42e1a93c8dfe774dadc10a2b4''"
  by code_simp

lemma sha256_verified_canonical_request:
  "hex_encode (sha256 verified_canonical_request) =
     ''705ddab3f6d9f17a42c1cd6f5703940e0621d67bad95feacfc9408cba3089552''"
  by code_simp

lemma hmac_signed_string:
  "hex_encode (hmac_sha256 kSigning
     (''AWS4-HMAC-SHA256'' @ nl @ ''20130524T000000Z'' @ nl @ example_scope @ nl @
      ''353c016cc29a5634f0c32f54d49f1eedfffd05a42e1a93c8dfe774dadc10a2b4'')) =
   ''dd1825676d9368ec90b8125911bdc39014f5c5f657ee33b2a920a61e6f560060''"
  by code_simp

lemma hmac_verified_string:
  "hex_encode (hmac_sha256 kSigning
     (''AWS4-HMAC-SHA256'' @ nl @ ''20130524T000000Z'' @ nl @ example_scope @ nl @
      ''705ddab3f6d9f17a42c1cd6f5703940e0621d67bad95feacfc9408cba3089552'')) =
   ''2274ceb1bab6ec356417483f3ad4feab33e60af493de0c647fe5cff2abf83e05''"
  by code_simp

lemma example_client_signature:
  "client_signature (secretKey example_auth) wire_request ''20130524'' ''us-east-1'' ''s3''
     example_signed_headers = ''dd1825676d9368ec90b8125911bdc39014f5c5f657ee33b2a920a61e6f560060''"
proof -
  have "client_string_to_sign wire_request ''20130524'' ''us-east-1'' ''s3'' example_signed_headers =
      ''AWS4-HMAC-SHA256'' @ nl @ ''20130524T000000Z'' @ nl @ example_scope @ nl @
      ''353c016cc29a5634f0c32f54d49f1eedfffd05a42e1a93c8dfe774dadc10a2b4''"
    unfolding client_string_to_sign_def client_canonical_request_wire sha256_signed_canonical_request
      requestDateTime_wire
    by (simp add: example_scope_def)
  then show ?thesis
    unfolding client_signature_def example_signing_key by (simp only: hmac_signed_string)
qed

text \<open>The verifier's own functions depend on the request through what they read only.\<close>

lemma canonical_header_map_cong:
  assumes "\<forall>n \<in> set names. Header_Get (Header r) n = Header_Get (Header r') n"
  shows "canonical_header_map r names = canonical_header_map r' names"
  unfolding canonical_header_map_def using assms by (intro foldl_cong) auto

lemma createCanonicalRequest_cong:
  assumes "Method r = Method r'" "URLPath r = URLPath r'" "URLQuery r = URLQuery r'"
    and "\<forall>n \<in> set (''X-Amz-Content-Sha256'' # Split signedHeaders '';'').
           Header_Get (Header r) n = Header_Get (Header r') n"
  shows "createCanonicalRequest r signedHeaders = createCanonicalRequest r' signedHeaders"
proof -
  have "canonical_header_map r (Split signedHeaders '';'') =
        canonical_header_map r' (Split signedHeaders '';'')"
    using assms(4) by (intro canonical_header_map_cong) simp
  then show ?thesis
    using assms by (simp add: createCanonicalRequest_def createCanonicalHeaders_def)
qed

lemma Header_Get_received_signed:
  "CanonicalMIMEHeaderKey n \<noteq> ''Authorization'' \<Longrightarrow>
   Header_Get (Header (received (sign_request a date rgn service signedHeaders r))) n =
   Header_Get (Header (received r)) n"
  by (simp add: received_def sign_request_def Header_Get_def)

lemma canonical_signed_names:
  "\<forall>n \<in> set (Split example_signed_headers '';''). CanonicalMIMEHeaderKey n \<noteq> ''Authorization''"
  by code_simp

text \<open>
  C1: a defect of the code. The client signs \<open>wire_request\<close> with the configured
  credential exactly as section 4.1 describes, signing \<open>host\<close> and \<open>x-amz-date\<close>; the
  request the handler receives is refused with "signature mismatch", because
  \<open>createCanonicalHeaders\<close> leaves out the line of \<open>host\<close>, for which the header map
  has no value.
\<close>

theorem Authenticate_refuses_signed_host:
  "Authenticate example_auth
     (received (sign_request example_auth ''20130524'' ''us-east-1'' ''s3'' example_signed_headers
                  wire_request)) =
   Inl SignatureMismatch"
proof -
  let ?signed = "sign_request example_auth ''20130524'' ''us-east-1'' ''s3'' example_signed_headers
                   wire_request"
  let ?r = "received ?signed"
  let ?cred = "credential_of ''AKIDEXAMPLE'' ''20130524'' ''us-east-1'' ''s3''"
  let ?sent = "''dd1825676d9368ec90b8125911bdc39014f5c5f657ee33b2a920a61e6f560060''"
  let ?expected = "''2274ceb1bab6ec356417483f3ad4feab33e60af493de0c647fe5cff2abf83e05''"
  let ?h = "authorization_header ?cred example_signed_headers ?sent"
  have header: "Header_Get (Header ?r) ''Authorization'' = ?h"
    using example_client_signature
    by (simp add: received_def sign_request_def Header_Get_def canonical_Authorization example_auth_def)
  have cs: "\<not> has_comma_space ?cred" "\<not> has_comma_space example_signed_headers"
    "\<not> has_comma_space ?sent"
    by code_simp+
  then have parts: "parse_pairs ?h =
      [''Credential'' \<mapsto> ?cred, ''SignedHeaders'' \<mapsto> example_signed_headers,
       ''Signature'' \<mapsto> ?sent]"
    by (rule parse_pairs_authorization_header)
  have c: "map_get (parse_pairs ?h) ''Credential'' = ?cred"
    and s: "map_get (parse_pairs ?h) ''SignedHeaders'' = example_signed_headers"
    and g: "map_get (parse_pairs ?h) ''Signature'' = ?sent"
    by (simp_all add: parts map_get_def)
  have sp: "Split ?cred ''/'' = [''AKIDEXAMPLE'', ''20130524'', ''us-east-1'', ''s3'', ''aws4_request'']"
    by code_simp
  have cne: "?cred \<noteq> []" by (simp add: credential_of_def)
  have ne: "?h \<noteq> []" and pre: "HasPrefix ?h ''AWS4-HMAC-SHA256''"
    by (simp_all add: authorization_header_def HasPrefix_def)
  have same: "\<forall>n \<in> set (''X-Amz-Content-Sha256'' # Split example_signed_headers '';'').
      Header_Get (Header ?r) n = Header_Get (Header (received wire_request)) n"
    using canonical_signed_names
    by (auto simp: Header_Get_received_signed canonical_timestamp_headers)
  have canon: "createCanonicalRequest ?r example_signed_headers = verified_canonical_request"
    unfolding createCanonicalRequest_received [symmetric] using same
    by (intro createCanonicalRequest_cong) (simp_all add: received_def sign_request_def)
  have time: "requestDateTime ?r = ''20130524T000000Z''"
    unfolding requestDateTime_wire(2) [symmetric]
    by (simp add: requestDateTime_def Header_Get_received_signed canonical_timestamp_headers)
  have "CHR 0x0A \<in> set verified_canonical_request"
    by (simp add: verified_canonical_request_def nl_def)
  then have hash: "sha256Hex verified_canonical_request =
      ''705ddab3f6d9f17a42c1cd6f5703940e0621d67bad95feacfc9408cba3089552''"
    by (simp only: sha256Hex_with_newline sha256_verified_canonical_request)
  have sts: "stringToSign ?r ''20130524'' ''us-east-1'' ''s3'' example_signed_headers =
      ''AWS4-HMAC-SHA256'' @ nl @ ''20130524T000000Z'' @ nl @ example_scope @ nl @
      ''705ddab3f6d9f17a42c1cd6f5703940e0621d67bad95feacfc9408cba3089552''"
    unfolding stringToSign_def canon hash time by (simp add: example_scope_def)
  have key: "getSigningKey example_auth ''20130524'' ''us-east-1'' ''s3'' = kSigning"
    by (simp only: getSigningKey_client example_signing_key)
  have "hex_encode (hmacSHA256 (getSigningKey example_auth ''20130524'' ''us-east-1'' ''s3'')
          (stringToSign ?r ''20130524'' ''us-east-1'' ''s3'' example_signed_headers)) = ?expected"
    unfolding sts key hmacSHA256_digest_key [OF length_kSigning] by (rule hmac_verified_string)
  then have calc: "calculateSignature example_auth ?r ?cred example_signed_headers = Inr ?expected"
    by (simp add: calculateSignature_def sp)
  have ak: "accessKey example_auth = ''AKIDEXAMPLE''" by (simp add: example_auth_def)
  show ?thesis
    unfolding Authenticate_def parseAuthHeader_def header
    by (simp add: ne pre c s g cne sp calc ak)
qed

text \<open>
  Were the \<open>Host\<close> header left in the header map (as in a request built by hand), the
  same signed request would be accepted.
\<close>

lemma Authenticate_accepts_kept_host:
  "Authenticate example_auth
     (sign_request example_auth ''20130524'' ''us-east-1'' ''s3'' example_signed_headers wire_request) =
   Inr ()"
proof -
  have fields: "\<forall>f \<in> {accessKey example_auth, ''20130524'', ''us-east-1'', ''s3''}.
      CHR ''/'' \<notin> set f \<and> \<not> has_comma_space f"
    by (simp add: example_auth_def)
  have sh: "\<not> has_comma_space example_signed_headers"
    by code_simp
  have "list_all (\<lambda>n. Header_Get (Header wire_request) n \<noteq> [] \<and>
                       CanonicalMIMEHeaderKey n \<noteq> ''Authorization'' \<and>
                       list_all (\<lambda>c. (of_char c :: nat) < 128) n)
          (Split example_signed_headers '';'')"
    by code_simp
  then have signed: "\<forall>n \<in> set (Split example_signed_headers '';'').
      Header_Get (Header wire_request) n \<noteq> [] \<and>
      CanonicalMIMEHeaderKey n \<noteq> ''Authorization'' \<and> (\<forall>c \<in> set n. (of_char c :: nat) < 128)"
    by (simp add: list_all_iff)
  have names: "distinct (map ToLower (Split example_signed_headers '';''))"
    by code_simp
  have query: "distinct (map fst (URLQuery wire_request))" "unspaced (URLQuery wire_request)"
    by (simp_all add: wire_request_def unspaced_def)
  from fields sh signed names query show ?thesis
    by (rule Authenticate_signed_request)
qed

end
